theory Spec2Isabelle
  imports Complex_Main
begin

section \<open>JavaScript values\<close>

text \<open>
  The viewer is TypeScript; its annotations are erased before it runs, so a value read
  out of \<^verbatim>\<open>JSON.parse\<close> is whatever the text held. Decoded values are modelled
  by \<open>json\<close>; \<^verbatim>\<open>undefined\<close> is \<open>None\<close> of an option type.

  Numbers are idealised: a JavaScript number is an exact rational. The rounding of
  IEEE doubles in \<open>+\<close>, \<open>*\<close> and \<open>/\<close>, and the values NaN and the infinities of a
  percentage, are outside this model. Time values, where NaN and the infinities decide
  what the code does, have the type \<open>timeval\<close> of their own.
\<close>

datatype json =
    JNull
  | JBool bool
  | JNum rat
  | JStr string
  | JArr "json list"
  | JObj "(string \<times> json) list"

datatype js_error = TypeError | RangeError | SyntaxError | Error string

text \<open>Truthiness, as \<^verbatim>\<open>if (v)\<close>, \<^verbatim>\<open>v ? a : b\<close>, \<^verbatim>\<open>v || d\<close> and \<^verbatim>\<open>!v\<close> test it.\<close>

fun truthy :: "json \<Rightarrow> bool" where
  "truthy JNull = False"
| "truthy (JBool b) = b"
| "truthy (JNum x) = (x \<noteq> 0)"
| "truthy (JStr s) = (s \<noteq> [])"
| "truthy (JArr vs) = True"
| "truthy (JObj kvs) = True"

text \<open>\<^verbatim>\<open>v || d\<close> on a property that may be missing.\<close>

definition or_default :: "json option \<Rightarrow> json \<Rightarrow> json" where
  "or_default v d = (case v of None \<Rightarrow> d | Some x \<Rightarrow> if truthy x then x else d)"

text \<open>
  \<^verbatim>\<open>x.toFixed(f)\<close> picks the integer \<open>n\<close> with \<open>n / 10^f\<close> nearest to \<open>|x|\<close>, the
  larger one on a tie, and prints it with \<open>f\<close> decimals behind the sign of \<open>x\<close>.
  \<open>toFixed_num\<close> is the number that \<^verbatim>\<open>Number(x.toFixed(f))\<close> and
  \<^verbatim>\<open>parseFloat(x.toFixed(f))\<close> read back; \<open>toFixed\<close> is the string itself (for
  magnitudes below \<open>10^21\<close>, which every percentage is).
\<close>

definition toFixed_int :: "nat \<Rightarrow> rat \<Rightarrow> int" where
  "toFixed_int f x = \<lfloor>\<bar>x\<bar> * 10 ^ f + 1 / 2\<rfloor>"

definition toFixed_num :: "nat \<Rightarrow> rat \<Rightarrow> rat" where
  "toFixed_num f x =
     (if x < 0 then - (of_int (toFixed_int f x) / 10 ^ f) else of_int (toFixed_int f x) / 10 ^ f)"

definition digit_char :: "nat \<Rightarrow> char" where
  "digit_char d = ''0123456789'' ! d"

fun digits :: "nat \<Rightarrow> string" where
  "digits n = (if n < 10 then [digit_char n] else digits (n div 10) @ [digit_char (n mod 10)])"

definition toFixed :: "nat \<Rightarrow> rat \<Rightarrow> string" where
  "toFixed f x =
     (let m = digits (nat (toFixed_int f x));
          m = (if f \<noteq> 0 \<and> length m \<le> f then replicate (f + 1 - length m) (CHR ''0'') @ m else m);
          m = (if f \<noteq> 0 then take (length m - f) m @ ''.'' @ drop (length m - f) m else m)
      in if x < 0 then ''-'' @ m else m)"

section \<open>Samples\<close>

text \<open>
  \<^verbatim>\<open>CpuLogEntry\<close> of \<^verbatim>\<open>types.ts\<close>. The two CPU fields are numbers wherever an
  entry is built (the parser checks \<^verbatim>\<open>typeof\<close>); \<open>timestamp\<close>, \<open>pid\<close> and
  \<open>command\<close> are copied from the decoded line unchecked, so they hold a \<open>json\<close>.
\<close>

record cpu_log_entry =
  timestamp :: json
  pid :: json
  cpu_user_percent :: rat
  cpu_sys_percent :: rat
  memory_percent :: "rat option"
  command :: "json option"

section \<open>Dates\<close>

text \<open>
  A time value is what \<^verbatim>\<open>getTime()\<close> returns or what the filter compares with:
  milliseconds since the epoch, NaN for an invalid date, or an infinity.
  \<^verbatim>\<open>new Date(v).getTime()\<close> on a decoded value is the parameter \<open>getTime\<close> of the
  functions below (the date parser is the platform's), and \<open>isoStr\<close> is the text
  \<^verbatim>\<open>toISOString\<close> prints for a valid time.
\<close>

datatype timeval = NaN | NegInfinity | PosInfinity | Ms int

fun tv_le :: "timeval \<Rightarrow> timeval \<Rightarrow> bool" where
  "tv_le NaN b = False"
| "tv_le a NaN = False"
| "tv_le NegInfinity b = True"
| "tv_le a PosInfinity = True"
| "tv_le (Ms a) (Ms b) = (a \<le> b)"
| "tv_le a b = False"

definition max_time :: int where
  "max_time = 8640000000000000"

text \<open>\<^verbatim>\<open>new Date(v)\<close> for a number \<open>v\<close>: the time is clipped to the valid range.\<close>

definition new_Date :: "timeval \<Rightarrow> timeval" where
  "new_Date v = (case v of Ms t \<Rightarrow> if \<bar>t\<bar> \<le> max_time then Ms t else NaN | _ \<Rightarrow> NaN)"

definition tv_add :: "timeval \<Rightarrow> int \<Rightarrow> timeval" where
  "tv_add v k = (case v of Ms t \<Rightarrow> Ms (t + k) | _ \<Rightarrow> v)"

definition toISOString :: "(int \<Rightarrow> string) \<Rightarrow> timeval \<Rightarrow> js_error + string" where
  "toISOString isoStr v = (case v of Ms t \<Rightarrow> Inr (isoStr t) | _ \<Rightarrow> Inl RangeError)"

section \<open>Streaming tick (Dashboard.tsx, the setLocalData updater)\<close>

definition MAX_HISTORY :: nat where
  "MAX_HISTORY = 100"

definition drift :: "rat \<Rightarrow> rat" where
  "drift r = (r - 1 / 2) * 10"

definition clamp :: "rat \<Rightarrow> rat" where
  "clamp num = min 100 (max 0 num)"

text \<open>
  \<open>r1\<close>, \<open>r2\<close>, \<open>r3\<close> are the values the calls of \<^verbatim>\<open>Math.random()\<close> return, in
  the order the tick makes them; the third call is made only when the last sample's
  memory is truthy. A number is truthy when it is not \<open>0\<close>, and \<^verbatim>\<open>undefined\<close> is
  falsy: both \<^verbatim>\<open>lastEntry.memory_percent ? ... : undefined\<close> and
  \<^verbatim>\<open>newMem ? ... : undefined\<close> take the second branch on \<open>0\<close>.
\<close>

definition newMem :: "rat \<Rightarrow> cpu_log_entry \<Rightarrow> rat option" where
  "newMem r3 lastEntry =
     (case memory_percent lastEntry of
        None \<Rightarrow> None
      | Some m \<Rightarrow> if m \<noteq> 0 then Some (clamp (m + drift r3 / 5)) else None)"

definition newEntry :: "(json \<Rightarrow> timeval) \<Rightarrow> (int \<Rightarrow> string) \<Rightarrow> rat \<Rightarrow> rat \<Rightarrow> rat \<Rightarrow>
    cpu_log_entry \<Rightarrow> js_error + cpu_log_entry" where
  "newEntry getTime isoStr r1 r2 r3 lastEntry =
     (let lastDate = getTime (timestamp lastEntry);
          newDate = new_Date (tv_add lastDate 1000);
          newUser = clamp (cpu_user_percent lastEntry + drift r1);
          newSys = clamp (cpu_sys_percent lastEntry + drift r2 / 2);
          nm = newMem r3 lastEntry
      in case toISOString isoStr newDate of
           Inl e \<Rightarrow> Inl e
         | Inr s \<Rightarrow> Inr \<lparr>timestamp = JStr s,
                         pid = pid lastEntry,
                         cpu_user_percent = toFixed_num 2 newUser,
                         cpu_sys_percent = toFixed_num 2 newSys,
                         memory_percent =
                           (case nm of
                              None \<Rightarrow> None
                            | Some v \<Rightarrow> if v \<noteq> 0 then Some (toFixed_num 2 v) else None),
                         command = command lastEntry\<rparr>)"

text \<open>The rolling window: keep the last \<open>MAX_HISTORY\<close> items.\<close>

definition rolling :: "cpu_log_entry list \<Rightarrow> cpu_log_entry list" where
  "rolling updated =
     (if length updated > MAX_HISTORY then drop (length updated - MAX_HISTORY) updated
      else updated)"

text \<open>
  One tick. On an empty store \<^verbatim>\<open>prevData[prevData.length - 1]\<close> is undefined and
  reading its \<^verbatim>\<open>timestamp\<close> throws.
\<close>

definition tick :: "(json \<Rightarrow> timeval) \<Rightarrow> (int \<Rightarrow> string) \<Rightarrow> rat \<Rightarrow> rat \<Rightarrow> rat \<Rightarrow>
    cpu_log_entry list \<Rightarrow> js_error + cpu_log_entry list" where
  "tick getTime isoStr r1 r2 r3 prevData =
     (if prevData = [] then Inl TypeError
      else case newEntry getTime isoStr r1 r2 r3 (last prevData) of
             Inl e \<Rightarrow> Inl e
           | Inr e \<Rightarrow> Inr (rolling (prevData @ [e])))"

text \<open>Several ticks, each with its own three draws; a tick that throws leaves no store.\<close>

fun ticks :: "(json \<Rightarrow> timeval) \<Rightarrow> (int \<Rightarrow> string) \<Rightarrow> (rat \<times> rat \<times> rat) list \<Rightarrow>
    cpu_log_entry list \<Rightarrow> js_error + cpu_log_entry list" where
  "ticks getTime isoStr [] store = Inr store"
| "ticks getTime isoStr ((r1, r2, r3) # rs) store =
     (case tick getTime isoStr r1 r2 r3 store of
        Inl e \<Rightarrow> Inl e
      | Inr store' \<Rightarrow> ticks getTime isoStr rs store')"

section \<open>Range filter (Dashboard.tsx, filteredData)\<close>

text \<open>
  \<open>filterStart\<close> and \<open>filterEnd\<close> are the texts of the two date inputs; the empty
  text is an absent bound. \<^verbatim>\<open>t >= startTs && t <= endTs\<close> compares time values, and a
  comparison with NaN is false.
\<close>

definition filteredData :: "(json \<Rightarrow> timeval) \<Rightarrow> bool \<Rightarrow> string \<Rightarrow> string \<Rightarrow>
    cpu_log_entry list \<Rightarrow> cpu_log_entry list" where
  "filteredData getTime isStreaming filterStart filterEnd localData =
     (if isStreaming then localData
      else if filterStart = [] \<and> filterEnd = [] then localData
      else
        let startTs = (if filterStart \<noteq> [] then getTime (JStr filterStart) else NegInfinity);
            endTs = (if filterEnd \<noteq> [] then getTime (JStr filterEnd) else PosInfinity)
        in filter (\<lambda>d. let t = getTime (timestamp d) in tv_le startTs t \<and> tv_le t endTs)
             localData)"

text \<open>
  The filter in the words of its description: a sample is kept when its time lies
  between the bounds, both inclusive, and an absent bound (\<open>None\<close>) does not bound.
\<close>

definition in_range :: "int option \<Rightarrow> int option \<Rightarrow> timeval \<Rightarrow> bool" where
  "in_range S E v =
     (case v of
        Ms t \<Rightarrow> (case S of None \<Rightarrow> True | Some s \<Rightarrow> s \<le> t) \<and>
                (case E of None \<Rightarrow> True | Some e \<Rightarrow> t \<le> e)
      | _ \<Rightarrow> False)"

section \<open>Statistics (Dashboard.tsx, stats)\<close>

text \<open>
  The fields of the result are numbers on the empty view and strings (\<^verbatim>\<open>toFixed(1)\<close>
  or \<^verbatim>\<open>'N/A'\<close>) otherwise, so they are \<open>json\<close> values.
\<close>

record stats_result =
  avgUser :: json
  avgSys :: json
  maxTotal :: json
  avgMem :: json
  count :: nat

record stats_sums =
  sumUser :: rat
  sumSys :: rat
  sumMem :: rat
  maxTotalAcc :: rat
  memCount :: nat

definition stats_each :: "cpu_log_entry \<Rightarrow> stats_sums \<Rightarrow> stats_sums" where
  "stats_each d s =
     (let total = cpu_user_percent d + cpu_sys_percent d;
          s1 = s\<lparr>sumUser := sumUser s + cpu_user_percent d,
                 sumSys := sumSys s + cpu_sys_percent d,
                 maxTotalAcc := (if total > maxTotalAcc s then total else maxTotalAcc s)\<rparr>
      in case memory_percent d of
           None \<Rightarrow> s1
         | Some m \<Rightarrow> s1\<lparr>sumMem := sumMem s1 + m, memCount := memCount s1 + 1\<rparr>)"

definition stats :: "cpu_log_entry list \<Rightarrow> stats_result" where
  "stats fd =
     (if length fd = 0
      then \<lparr>avgUser = JNum 0, avgSys = JNum 0, maxTotal = JNum 0, avgMem = JNum 0, count = 0\<rparr>
      else
        let s = fold stats_each fd
                  \<lparr>sumUser = 0, sumSys = 0, sumMem = 0, maxTotalAcc = 0, memCount = 0\<rparr>
        in \<lparr>avgUser = JStr (toFixed 1 (sumUser s / of_nat (length fd))),
            avgSys = JStr (toFixed 1 (sumSys s / of_nat (length fd))),
            maxTotal = JStr (toFixed 1 (maxTotalAcc s)),
            avgMem = (if memCount s > 0 then JStr (toFixed 1 (sumMem s / of_nat (memCount s)))
                      else JStr ''N/A''),
            count = length fd\<rparr>)"

section \<open>Incident detector (Dashboard.tsx, alertIncidents)\<close>

record incident =
  start :: json
  end_ts :: json
  maxVal :: rat

text \<open>
  The variables of the sweep. \<open>currentStart\<close> is \<^verbatim>\<open>string | null\<close> in the source;
  \<open>None\<close> is \<^verbatim>\<open>null\<close>, and \<^verbatim>\<open>consecutiveCount >= 3 && currentStart\<close> tests its
  truthiness.
\<close>

record sweep =
  incidents :: "incident list"
  consecutiveCount :: nat
  currentStart :: "json option"
  currentMax :: rat

definition start_truthy :: "json option \<Rightarrow> bool" where
  "start_truthy c = (case c of None \<Rightarrow> False | Some v \<Rightarrow> truthy v)"

text \<open>
  The body of \<^verbatim>\<open>forEach((d, idx) => ...)\<close>. \<^verbatim>\<open>filteredData[idx-1]\<close> outside the
  array is undefined, and reading its \<^verbatim>\<open>timestamp\<close> throws.
\<close>

definition sweep_each :: "rat \<Rightarrow> cpu_log_entry list \<Rightarrow> nat \<Rightarrow> cpu_log_entry \<Rightarrow> sweep \<Rightarrow>
    js_error + sweep" where
  "sweep_each cpuThreshold fd idx d s =
     (let total = cpu_user_percent d + cpu_sys_percent d in
      if total > cpuThreshold then
        Inr ((if consecutiveCount s = 0
              then s\<lparr>currentStart := Some (timestamp d), currentMax := total\<rparr>
              else s\<lparr>currentMax := max (currentMax s) total\<rparr>)
             \<lparr>consecutiveCount := consecutiveCount s + 1\<rparr>)
      else if consecutiveCount s \<ge> 3 \<and> start_truthy (currentStart s) then
        (if 1 \<le> idx \<and> idx - 1 < length fd
         then Inr (s\<lparr>incidents := incidents s @
                        [\<lparr>start = the (currentStart s),
                          end_ts = timestamp (fd ! (idx - 1)),
                          maxVal = currentMax s\<rparr>],
                      consecutiveCount := 0, currentStart := None, currentMax := 0\<rparr>)
         else Inl TypeError)
      else Inr (s\<lparr>consecutiveCount := 0, currentStart := None, currentMax := 0\<rparr>))"

fun sweep_forEach :: "rat \<Rightarrow> cpu_log_entry list \<Rightarrow> (nat \<times> cpu_log_entry) list \<Rightarrow> sweep \<Rightarrow>
    js_error + sweep" where
  "sweep_forEach cpuThreshold fd [] s = Inr s"
| "sweep_forEach cpuThreshold fd ((idx, d) # rest) s =
     (case sweep_each cpuThreshold fd idx d s of
        Inl e \<Rightarrow> Inl e
      | Inr s' \<Rightarrow> sweep_forEach cpuThreshold fd rest s')"

text \<open>
  After the loop a run that is still open is flushed, with the timestamp of
  \<^verbatim>\<open>filteredData[filteredData.length-1]\<close> as its end.
\<close>

definition sweep_flush :: "cpu_log_entry list \<Rightarrow> sweep \<Rightarrow> js_error + incident list" where
  "sweep_flush fd s =
     (if consecutiveCount s \<ge> 3 \<and> start_truthy (currentStart s) then
        (if fd \<noteq> []
         then Inr (incidents s @
                    [\<lparr>start = the (currentStart s),
                      end_ts = timestamp (last fd),
                      maxVal = currentMax s\<rparr>])
         else Inl TypeError)
      else Inr (incidents s))"

definition alertIncidents :: "rat \<Rightarrow> cpu_log_entry list \<Rightarrow> js_error + incident list" where
  "alertIncidents cpuThreshold fd =
     (case sweep_forEach cpuThreshold fd (enumerate 0 fd)
             \<lparr>incidents = [], consecutiveCount = 0, currentStart = None, currentMax = 0\<rparr> of
        Inl e \<Rightarrow> Inl e
      | Inr s \<Rightarrow> sweep_flush fd s)"

text \<open>
  What the detector is to compute, in the words of its description: the maximal
  contiguous runs of samples over the threshold, and for each run of three or more
  the incident of its first timestamp, its last timestamp and its peak.
\<close>

definition over :: "rat \<Rightarrow> cpu_log_entry \<Rightarrow> bool" where
  "over T d = (cpu_user_percent d + cpu_sys_percent d > T)"

function maximal_runs :: "('a \<Rightarrow> bool) \<Rightarrow> 'a list \<Rightarrow> 'a list list" where
  "maximal_runs P [] = []"
| "maximal_runs P (x # xs) =
     (if P x then (x # takeWhile P xs) # maximal_runs P (dropWhile P xs)
      else maximal_runs P xs)"
  by pat_completeness auto
termination
  by (relation "measure (\<lambda>(P, xs). length xs)")
     (auto simp: length_dropWhile_le less_Suc_eq_le)

definition run_incident :: "cpu_log_entry list \<Rightarrow> incident" where
  "run_incident r =
     \<lparr>start = timestamp (hd r),
      end_ts = timestamp (last r),
      maxVal = Max (set (map (\<lambda>d. cpu_user_percent d + cpu_sys_percent d) r))\<rparr>"

definition sustained_runs :: "rat \<Rightarrow> cpu_log_entry list \<Rightarrow> incident list" where
  "sustained_runs T xs =
     map run_incident (filter (\<lambda>r. 3 \<le> length r) (maximal_runs (over T) xs))"

text \<open>
  The example of the description: user+sys of 90, 90, 90, 10, 95, 95, 95, 95, 10, one
  sample a second.
\<close>

definition example_sample :: "string \<Rightarrow> rat \<Rightarrow> rat \<Rightarrow> cpu_log_entry" where
  "example_sample ts u s =
     \<lparr>timestamp = JStr ts, pid = JNum 1, cpu_user_percent = u, cpu_sys_percent = s,
      memory_percent = None, command = None\<rparr>"

definition example_series :: "cpu_log_entry list" where
  "example_series =
     [example_sample ''2024-01-01T10:00:00'' 70 20,
      example_sample ''2024-01-01T10:00:01'' 80 10,
      example_sample ''2024-01-01T10:00:02'' 60 30,
      example_sample ''2024-01-01T10:00:03'' 8 2,
      example_sample ''2024-01-01T10:00:04'' 75 20,
      example_sample ''2024-01-01T10:00:05'' 90 5,
      example_sample ''2024-01-01T10:00:06'' 70 25,
      example_sample ''2024-01-01T10:00:07'' 85 10,
      example_sample ''2024-01-01T10:00:08'' 5 5]"

section \<open>Analysis requester (services/geminiService.ts, analyzeCpuData)\<close>

text \<open>
  \<^verbatim>\<open>Math.ceil(data.length / 100)\<close>, and the filter on \<^verbatim>\<open>index % step === 0\<close>. With
  \<open>step = 0\<close> the remainder is NaN and no index passes. The step reads no field of a
  sample, so it is stated for any element type.
\<close>

definition step_of :: "nat \<Rightarrow> nat" where
  "step_of n = nat \<lceil>(of_nat n :: rat) / 100\<rceil>"

definition sampledData :: "'a list \<Rightarrow> 'a list" where
  "sampledData data =
     (let step = step_of (length data)
      in map snd (filter (\<lambda>(index, d). step \<noteq> 0 \<and> index mod step = 0) (enumerate 0 data)))"

text \<open>
  The external capability is a parameter: given the downsampled payload of the prompt,
  \<^verbatim>\<open>generateContent\<close> either rejects or resolves with a response whose
  \<^verbatim>\<open>text\<close> may be undefined. \<open>JSON_parse\<close> is \<^verbatim>\<open>JSON.parse\<close>, \<open>None\<close> where
  it throws. The result pairs what the call returns or throws with the payloads that
  were handed to the capability, in order.
\<close>

datatype gen_outcome = Rejects js_error | Resolves "string option"

definition fallback :: json where
  "fallback =
     JObj [(''summary'', JStr ''Failed to generate analysis using AI.''),
           (''recommendations'',
              JArr [JStr ''Check your network connection'', JStr ''Verify API Key'']),
           (''severity'', JStr ''LOW'')]"

definition key_missing :: "string option \<Rightarrow> bool" where
  "key_missing API_KEY = (case API_KEY of None \<Rightarrow> True | Some k \<Rightarrow> k = [])"

definition analyzeCpuData :: "string option \<Rightarrow> (cpu_log_entry list \<Rightarrow> gen_outcome) \<Rightarrow>
    (string \<Rightarrow> json option) \<Rightarrow> cpu_log_entry list \<Rightarrow>
    (js_error + json) \<times> cpu_log_entry list list" where
  "analyzeCpuData API_KEY generateContent JSON_parse data =
     (if key_missing API_KEY
      then (Inl (Error ''API Key not found. Please ensure process.env.API_KEY is set.''), [])
      else
        let sampled = sampledData data
        in (case generateContent sampled of
              Rejects e \<Rightarrow> Inr fallback
            | Resolves resultText \<Rightarrow>
                (case resultText of
                   None \<Rightarrow> Inr fallback
                 | Some t \<Rightarrow>
                     if t = [] then Inr fallback
                     else (case JSON_parse t of
                             None \<Rightarrow> Inr fallback
                           | Some v \<Rightarrow> Inr v)),
            [sampled]))"

text \<open>The failures of the external call: it rejects, answers no text, or answers text
  that does not decode.\<close>

definition call_fails :: "(cpu_log_entry list \<Rightarrow> gen_outcome) \<Rightarrow> (string \<Rightarrow> json option) \<Rightarrow>
    cpu_log_entry list \<Rightarrow> bool" where
  "call_fails generateContent JSON_parse data =
     (case generateContent (sampledData data) of
        Rejects e \<Rightarrow> True
      | Resolves None \<Rightarrow> True
      | Resolves (Some t) \<Rightarrow> t = [] \<or> JSON_parse t = None)"

section \<open>Ingestion (utils/parser.ts)\<close>

text \<open>
  Strings are lists of bytes; \<^verbatim>\<open>trim\<close> removes the ASCII white space and line
  terminators (the non-ASCII ones it also removes are not modelled).
\<close>

definition is_space :: "char \<Rightarrow> bool" where
  "is_space c = (c \<in> set [CHR '' '', CHR 0x09, CHR 0x0A, CHR 0x0B, CHR 0x0C, CHR 0x0D])"

definition trim :: "string \<Rightarrow> string" where
  "trim s = rev (dropWhile is_space (rev (dropWhile is_space s)))"


text \<open>
  \<^verbatim>\<open>entry.memory_percent ? parseFloat(entry.memory_percent.toFixed(2)) : undefined\<close>:
  a falsy value gives undefined, a number is rounded, and any other truthy value has
  no \<^verbatim>\<open>toFixed\<close>, so that the call throws.
\<close>

definition memory_field :: "json option \<Rightarrow> js_error + rat option" where
  "memory_field v =
     (case v of
        None \<Rightarrow> Inr None
      | Some x \<Rightarrow>
          if truthy x
          then (case x of JNum n \<Rightarrow> Inr (Some (toFixed_num 2 n)) | _ \<Rightarrow> Inl TypeError)
          else Inr None)"

text \<open>
  One turn of the loop over the lines. \<open>Skipped\<close> is a line that leaves the loop body
  without a push (\<^verbatim>\<open>continue\<close>, or the validation fails), \<open>Warned\<close> one whose
  exception the \<^verbatim>\<open>catch\<close> logs, \<open>Pushed\<close> one that adds an entry. A property of
  \<^verbatim>\<open>null\<close> cannot be read; a property of a number, string, boolean or array that
  is none of the six names read here is undefined. In a decoded object the first
  pair of a key is the one that counts.
\<close>

datatype line_outcome = Skipped | Warned js_error | Pushed cpu_log_entry

definition parse_line :: "(string \<Rightarrow> json option) \<Rightarrow> string \<Rightarrow> string \<Rightarrow> line_outcome" where
  "parse_line JSON_parse now line =
     (let cleanLine = trim line in
      if cleanLine = [] then Skipped
      else case JSON_parse cleanLine of
             None \<Rightarrow> Warned SyntaxError
           | Some JNull \<Rightarrow> Warned TypeError
           | Some (JObj entry) \<Rightarrow>
               (case (map_of entry ''cpu_user_percent'', map_of entry ''cpu_sys_percent'') of
                  (Some (JNum u), Some (JNum s)) \<Rightarrow>
                    (case memory_field (map_of entry ''memory_percent'') of
                       Inl e \<Rightarrow> Warned e
                     | Inr m \<Rightarrow>
                         Pushed \<lparr>timestamp = or_default (map_of entry ''timestamp'') (JStr now),
                                 pid = or_default (map_of entry ''pid'') (JNum 0),
                                 cpu_user_percent = toFixed_num 2 u,
                                 cpu_sys_percent = toFixed_num 2 s,
                                 memory_percent = m,
                                 command = map_of entry ''command''\<rparr>)
                | _ \<Rightarrow> Skipped)
           | Some _ \<Rightarrow> Skipped)"



text \<open>
  A valid line in the words of the description: not blank, decodable, and with numeric
  \<^verbatim>\<open>cpu_user_percent\<close> and \<^verbatim>\<open>cpu_sys_percent\<close>.
\<close>

definition is_number :: "json option \<Rightarrow> bool" where
  "is_number v = (case v of Some (JNum n) \<Rightarrow> True | _ \<Rightarrow> False)"

definition valid_line :: "(string \<Rightarrow> json option) \<Rightarrow> string \<Rightarrow> bool" where
  "valid_line JSON_parse line =
     (trim line \<noteq> [] \<and>
      (case JSON_parse (trim line) of
         Some (JObj entry) \<Rightarrow>
           is_number (map_of entry ''cpu_user_percent'') \<and>
           is_number (map_of entry ''cpu_sys_percent'')
       | _ \<Rightarrow> False))"

text \<open>A valid line whose \<^verbatim>\<open>memory_percent\<close> is missing, falsy or a number.\<close>

definition memory_usable :: "json option \<Rightarrow> bool" where
  "memory_usable v = (case v of None \<Rightarrow> True | Some x \<Rightarrow> \<not> truthy x \<or> is_number (Some x))"

definition accepted_line :: "(string \<Rightarrow> json option) \<Rightarrow> string \<Rightarrow> bool" where
  "accepted_line JSON_parse line =
     (valid_line JSON_parse line \<and>
      (case JSON_parse (trim line) of
         Some (JObj entry) \<Rightarrow> memory_usable (map_of entry ''memory_percent'')
       | _ \<Rightarrow> False))"



text \<open>Rounded to two decimals: a multiple of a hundredth at most half a hundredth away.\<close>

definition rounded2 :: "rat \<Rightarrow> rat \<Rightarrow> bool" where
  "rounded2 x y = (of_int \<lfloor>y * 100\<rfloor> = y * 100 \<and> \<bar>y - x\<bar> \<le> 1 / 200)"


text \<open>The generator of demonstration data. \<open>now\<close> is \<^verbatim>\<open>new Date().getTime()\<close> and
  \<open>random k\<close> the value of the \<open>k\<close>-th call of \<^verbatim>\<open>Math.random()\<close>; an entry makes
  three calls, for user, system and memory. The sums are exact here; a sum of the
  source's doubles may round up to the end of its range (\<open>60 + r * 10\<close> to \<open>70\<close> for a
  draw next to \<open>1\<close>), so the properties below bound the values by closed ranges and
  allow a draw of up to \<open>1\<close>.\<close>

definition mock_entry :: "int \<Rightarrow> (int \<Rightarrow> string) \<Rightarrow> (nat \<Rightarrow> rat) \<Rightarrow> nat \<Rightarrow>
    js_error + cpu_log_entry" where
  "mock_entry now isoStr random i =
     (let time = new_Date (Ms (now - (60 - int i) * 1000));
          isSpike = (i > 40 \<and> i < 50);
          baseUser = (if isSpike then 60 else 10);
          baseSys = (if isSpike then 20 else 2)
      in case toISOString isoStr time of
           Inl e \<Rightarrow> Inl e
         | Inr s \<Rightarrow>
             Inr \<lparr>timestamp = JStr s,
                  pid = JNum 1234,
                  cpu_user_percent = min 100 (baseUser + random (3 * i) * 10),
                  cpu_sys_percent = min 100 (baseSys + random (3 * i + 1) * 5),
                  memory_percent = Some (45 + random (3 * i + 2)),
                  command = Some (JStr ''python3 worker.py'')\<rparr>)"

function mock_loop :: "int \<Rightarrow> (int \<Rightarrow> string) \<Rightarrow> (nat \<Rightarrow> rat) \<Rightarrow> nat \<Rightarrow> cpu_log_entry list \<Rightarrow>
    js_error + cpu_log_entry list" where
  "mock_loop now isoStr random i data =
     (if i < 60
      then (case mock_entry now isoStr random i of
              Inl e \<Rightarrow> Inl e
            | Inr d \<Rightarrow> mock_loop now isoStr random (i + 1) (data @ [d]))
      else Inr data)"
  by pat_completeness auto
termination
  by (relation "measure (\<lambda>(now, isoStr, random, i, data). 60 - i)") auto

definition generateMockData :: "int \<Rightarrow> (int \<Rightarrow> string) \<Rightarrow> (nat \<Rightarrow> rat) \<Rightarrow>
    js_error + cpu_log_entry list" where
  "generateMockData now isoStr random = mock_loop now isoStr random 0 []"

section \<open>Example data\<close>

text \<open>
  Concrete stand-ins for the platform's date functions, used where a property is
  checked on an example: \<open>example_isoStr\<close> prints the times of 1 January 2024 (UTC)
  as \<^verbatim>\<open>toISOString\<close> does, and \<open>example_getTime\<close> reads the timestamps of the
  examples (in a UTC locale).
\<close>

definition example_day :: int where
  "example_day = 1704067200000"

definition pad :: "nat \<Rightarrow> nat \<Rightarrow> string" where
  "pad w n = replicate (w - length (digits n)) (CHR ''0'') @ digits n"

definition example_isoStr :: "int \<Rightarrow> string" where
  "example_isoStr t =
     (let ms = nat (t - example_day)
      in ''2024-01-01T'' @ pad 2 (ms div 3600000) @ '':'' @ pad 2 (ms div 60000 mod 60) @ '':'' @
         pad 2 (ms div 1000 mod 60) @ ''.'' @ pad 3 (ms mod 1000) @ ''Z'')"

definition example_times :: "(string \<times> int) list" where
  "example_times =
     [(''2024-01-01T10:00:00'', 1704103200000),
      (''2024-01-01T10:00:01'', 1704103201000),
      (''2024-01-01T10:00:02'', 1704103202000),
      (''2024-01-01T10:00:03'', 1704103203000),
      (''2024-01-01T10:00:04'', 1704103204000),
      (''2024-01-01T10:00:05'', 1704103205000),
      (''2024-01-01T10:00:06'', 1704103206000),
      (''2024-01-01T10:00:07'', 1704103207000),
      (''2024-01-01T10:00:08'', 1704103208000),
      (''2024-01-01T10:00:09.000Z'', 1704103209000),
      (''2024-01-01T10:00'', 1704103200000),
      (''2024-01-01T10:01'', 1704103260000)]"

definition example_getTime :: "json \<Rightarrow> timeval" where
  "example_getTime v =
     (case v of
        JStr s \<Rightarrow> (case map_of example_times s of Some t \<Rightarrow> Ms t | None \<Rightarrow> NaN)
      | _ \<Rightarrow> NaN)"

text \<open>A last sample at 50% user and 20% system CPU, with half a percent of memory.\<close>

definition example_last :: cpu_log_entry where
  "example_last =
     \<lparr>timestamp = JStr ''2024-01-01T10:00:08'', pid = JNum 1234,
      cpu_user_percent = 50, cpu_sys_percent = 20,
      memory_percent = Some (1 / 2), command = Some (JStr ''python3 worker.py'')\<rparr>"

text \<open>
  Lines of a captured log, and what \<^verbatim>\<open>JSON.parse\<close> gives for each: the banner the
  capture script prints first (no JSON), a full sample, a sample without timestamp
  and pid whose memory is \<open>0\<close>, a sample whose memory is a string, and a sample whose
  memory is below half a hundredth.
\<close>

definition example_banner :: string where
  \<open>example_banner = ''Monitoring PID 42... Outputting JSON lines.''\<close>

definition example_full :: string where
  \<open>example_full = ''{"timestamp": "2024-01-01T10:00:00", "pid": 42, "cpu_user_percent": 12.345, "cpu_sys_percent": 1.2, "memory_percent": 0.5}''\<close>

definition example_bare :: string where
  \<open>example_bare = ''{"cpu_user_percent": 50, "cpu_sys_percent": 20, "memory_percent": 0}''\<close>

definition example_text_memory :: string where
  \<open>example_text_memory = ''{"cpu_user_percent": 1, "cpu_sys_percent": 2, "memory_percent": "45"}''\<close>

definition example_tiny_memory :: string where
  \<open>example_tiny_memory = ''{"cpu_user_percent": 3, "cpu_sys_percent": 4, "memory_percent": 0.004}''\<close>

definition example_JSON_parse :: "string \<Rightarrow> json option" where
  "example_JSON_parse =
     map_of
       [(example_full,
           JObj [(''timestamp'', JStr ''2024-01-01T10:00:00''), (''pid'', JNum 42),
                 (''cpu_user_percent'', JNum (12345 / 1000)), (''cpu_sys_percent'', JNum (12 / 10)),
                 (''memory_percent'', JNum (1 / 2))]),
        (example_bare,
           JObj [(''cpu_user_percent'', JNum 50), (''cpu_sys_percent'', JNum 20),
                 (''memory_percent'', JNum 0)]),
        (example_text_memory,
           JObj [(''cpu_user_percent'', JNum 1), (''cpu_sys_percent'', JNum 2),
                 (''memory_percent'', JStr ''45'')]),
        (example_tiny_memory,
           JObj [(''cpu_user_percent'', JNum 3), (''cpu_sys_percent'', JNum 4),
                 (''memory_percent'', JNum (4 / 1000))])]"

definition example_clock :: "nat \<Rightarrow> string" where
  "example_clock i = example_isoStr (1704103260000 + int i)"



section \<open>Properties\<close>

declare digits.simps [simp del]

subsection \<open>Evaluating the rounding\<close>

lemma floor_rat_numeral [simp]:
  "\<lfloor>(numeral a :: rat) / numeral b\<rfloor> = numeral a div numeral b"
  using floor_divide_of_int_eq[of "numeral a" "numeral b", where ?'a = rat] by simp

lemma floor_rat_one_numeral [simp]:
  "\<lfloor>(1 :: rat) / numeral b\<rfloor> = 1 div numeral b"
  using floor_divide_of_int_eq[of 1 "numeral b", where ?'a = rat] by simp

subsection \<open>Downsampling\<close>

lemma step_of_eq: "step_of n = (n + 99) div 100"
proof -
  define q where "q = (n + 99) div 100"
  define r where "r = (n + 99) mod 100"
  have "q * 100 + r = n + 99" unfolding q_def r_def by (rule div_mult_mod_eq)
  then have "(of_nat (q * 100 + r) :: rat) = of_nat (n + 99)" by (simp only:)
  then have e: "(of_nat q :: rat) * 100 + of_nat r = of_nat n + 99" by simp
  have "r \<le> 99" unfolding r_def using mod_less_divisor[of 100 "n + 99"] by linarith
  then have "(of_nat r :: rat) \<le> of_nat 99" by (simp only: of_nat_le_iff)
  then have r: "(of_nat r :: rat) \<le> 99" by simp
  have r0: "(0::rat) \<le> of_nat r" by simp
  have "\<lceil>(of_nat n :: rat) / 100\<rceil> = int q"
  proof (rule ceiling_unique)
    show "of_int (int q) - 1 < (of_nat n :: rat) / 100" using e r r0 by simp
    show "(of_nat n :: rat) / 100 \<le> of_int (int q)" using e r r0 by simp
  qed
  then show ?thesis unfolding step_of_def q_def by simp
qed

lemma step_of_pos: "0 < n \<Longrightarrow> 0 < step_of n"
  by (simp add: step_of_eq)

lemma step_of_covers: "n \<le> 100 * step_of n"
proof -
  have "(n + 99) div 100 * 100 + (n + 99) mod 100 = n + 99" by (rule div_mult_mod_eq)
  moreover have "(n + 99) mod 100 < 100" by simp
  ultimately show ?thesis unfolding step_of_eq by linarith
qed

lemma sampledData_nths:
  "sampledData data =
     nths data {i. step_of (length data) \<noteq> 0 \<and> i mod step_of (length data) = 0}"
proof -
  have "zip [0..<length data] data = map (\<lambda>(x, y). (y, x)) (zip data [0..<length data])"
    by (rule zip_commute)
  then show ?thesis
    unfolding sampledData_def Let_def nths_def enumerate_eq_zip
    by (simp add: filter_map o_def case_prod_unfold)
qed

lemma sampledData_length: "length (sampledData data) \<le> 100"
proof (cases "data = []")
  case True
  then show ?thesis by (simp add: sampledData_def)
next
  case False
  let ?n = "length data"
  let ?s = "step_of ?n"
  have sp: "0 < ?s" using False by (simp add: step_of_pos)
  have "{i. i < ?n \<and> i mod ?s = 0} \<subseteq> (\<lambda>k. k * ?s) ` {..<100}"
  proof
    fix i
    assume "i \<in> {i. i < ?n \<and> i mod ?s = 0}"
    then have i: "i < ?n" "i mod ?s = 0" by auto
    then have e: "i = (i div ?s) * ?s" by auto
    have "i < 100 * ?s" using i(1) step_of_covers[of ?n] by linarith
    then have "i div ?s < 100" using sp by (simp add: less_mult_imp_div_less)
    with e show "i \<in> (\<lambda>k. k * ?s) ` {..<100}" by blast
  qed
  then have "card {i. i < ?n \<and> i mod ?s = 0} \<le> card ((\<lambda>k. k * ?s) ` {..<(100::nat)})"
    by (intro card_mono) auto
  also have "\<dots> \<le> 100"
    using card_image_le[of "{..<(100::nat)}" "\<lambda>k. k * ?s"] by simp
  finally show ?thesis using sp by (simp add: sampledData_nths length_nths)
qed

lemma sampledData_small:
  assumes "length data \<le> 100" and "data \<noteq> []"
  shows "sampledData data = data"
proof -
  from assms have "0 < length data" by simp
  then have l: "100 * 1 \<le> length data + 99" by linarith
  have u: "length data + 99 < 100 * Suc 1" using assms by simp
  from l u have "(length data + 99) div 100 = 1" by (rule div_nat_eqI)
  then have "step_of (length data) = 1" by (simp only: step_of_eq)
  then have "\<forall>i<length data. i \<in> {i. step_of (length data) \<noteq> 0 \<and> i mod step_of (length data) = 0}"
    by simp
  then show ?thesis unfolding sampledData_nths by (rule nths_all)
qed

lemma sampledData_hd:
  assumes "data \<noteq> []"
  shows "sampledData data \<noteq> [] \<and> hd (sampledData data) = hd data"
proof (cases data)
  case Nil
  with assms show ?thesis by simp
next
  case (Cons x xs)
  let ?A = "{i. step_of (length data) \<noteq> 0 \<and> i mod step_of (length data) = 0}"
  from Cons have "0 < step_of (length data)" by (simp add: step_of_pos)
  then have "0 \<in> ?A" by simp
  then have "nths (x # xs) ?A = x # nths xs {j. Suc j \<in> ?A}"
    by (simp only: nths_Cons if_True append_Cons append_Nil)
  then have "sampledData data = x # nths xs {j. Suc j \<in> ?A}"
    using Cons by (simp only: sampledData_nths)
  then show ?thesis using Cons by simp
qed

text \<open>
  C8. For a non-empty input of length \<open>n\<close> the downsampling step keeps exactly the
  samples at the indices divisible by \<open>N = ceil(n/100)\<close>, in order; the payload has at
  most 100 samples, begins with the first sample, and is the whole input when
  \<open>n \<le> 100\<close>.
\<close>

theorem sampledData_every_nth:
  assumes "data \<noteq> []"
  shows "step_of (length data) = (length data + 99) div 100 \<and>
         0 < step_of (length data) \<and>
         sampledData data = nths data {i. i mod step_of (length data) = 0} \<and>
         length (sampledData data) \<le> 100 \<and>
         sampledData data \<noteq> [] \<and> hd (sampledData data) = hd data \<and>
         (length data \<le> 100 \<longrightarrow> sampledData data = data)"
proof -
  from assms have sp: "0 < step_of (length data)" by (simp add: step_of_pos)
  then have "sampledData data = nths data {i. i mod step_of (length data) = 0}"
    by (simp add: sampledData_nths)
  with assms sp show ?thesis
    using step_of_eq sampledData_length sampledData_small sampledData_hd by blast
qed


theorem sampledData_every_nth_witness:
  "step_of (length [0..<201]) = 3 \<and>
   sampledData [0..<201] = nths [0..<201] {i. i mod 3 = 0} \<and>
   length (sampledData [0..<201]) \<le> 100 \<and>
   hd (sampledData [0..<201]) = 0"
proof -
  have ne: "[0..<201] \<noteq> []" by simp
  note t = sampledData_every_nth[OF ne]
  from t have s: "step_of (length [0..<201]) = 3" by simp
  from t have "sampledData [0..<201] = nths [0..<201] {i. i mod step_of (length [0..<201]) = 0}"
    by blast
  then have a: "sampledData [0..<201] = nths [0..<201] {i. i mod 3 = 0}" by (simp only: s)
  from t have b: "length (sampledData [0..<201]) \<le> 100" by blast
  from t have "hd (sampledData [0..<201]) = hd [0..<201]" by blast
  also have "\<dots> = 0" by (simp add: upt_conv_Cons)
  finally have c: "hd (sampledData [0..<201]) = 0" .
  from s a b c show ?thesis by blast
qed

subsection \<open>Rounding, clamping and drift\<close>

lemma drift_range: "0 \<le> r \<Longrightarrow> r < 1 \<Longrightarrow> - 5 \<le> drift r \<and> drift r < 5"
  by (simp add: drift_def)

lemma clamp_range: "0 \<le> clamp x \<and> clamp x \<le> 100"
  by (simp add: clamp_def)

lemma toFixed_int_nonneg: "0 \<le> toFixed_int f x"
  by (simp add: toFixed_int_def)

lemma toFixed_num_rounded2: "rounded2 x (toFixed_num 2 x)"
proof -
  let ?n = "toFixed_int 2 x"
  have lo: "of_int ?n \<le> \<bar>x\<bar> * 100 + 1 / 2"
    unfolding toFixed_int_def by (simp only: power2_eq_square) linarith
  have hi: "\<bar>x\<bar> * 100 + 1 / 2 < of_int ?n + 1"
    unfolding toFixed_int_def by (simp only: power2_eq_square) linarith
  show ?thesis
  proof (cases "x < 0")
    case True
    then have v: "toFixed_num 2 x = - (of_int ?n / 100)" by (simp add: toFixed_num_def)
    have "- (of_int ?n / 100) * 100 = (of_int (- ?n) :: rat)" by simp
    then have "of_int \<lfloor>- (of_int ?n / 100) * 100 :: rat\<rfloor> = - (of_int ?n / 100) * (100 :: rat)"
      by (simp only: floor_of_int)
    moreover have "\<bar>- (of_int ?n / 100) - x\<bar> \<le> 1 / 200" using True lo hi by linarith
    ultimately show ?thesis unfolding rounded2_def v by blast
  next
    case False
    then have v: "toFixed_num 2 x = of_int ?n / 100" by (simp add: toFixed_num_def)
    have "of_int ?n / 100 * 100 = (of_int ?n :: rat)" by simp
    then have "of_int \<lfloor>of_int ?n / 100 * 100 :: rat\<rfloor> = of_int ?n / 100 * (100 :: rat)"
      by (simp only: floor_of_int)
    moreover have "\<bar>of_int ?n / 100 - x\<bar> \<le> 1 / 200" using False lo hi by linarith
    ultimately show ?thesis unfolding rounded2_def v by blast
  qed
qed

lemma toFixed_num_percent:
  assumes "0 \<le> x" and "x \<le> 100"
  shows "0 \<le> toFixed_num 2 x \<and> toFixed_num 2 x \<le> 100"
proof -
  have "\<bar>x\<bar> * 10 ^ 2 + 1 / 2 < 10001" using assms by simp
  then have "toFixed_int 2 x < 10001" unfolding toFixed_int_def by (simp only: floor_less_iff of_int_numeral)
  then have "toFixed_int 2 x \<le> 10000" by simp
  then have "(of_int (toFixed_int 2 x) :: rat) \<le> of_int 10000" by (simp only: of_int_le_iff)
  moreover have "(0 :: rat) \<le> of_int (toFixed_int 2 x)" using toFixed_int_nonneg by simp
  ultimately show ?thesis using assms by (simp add: toFixed_num_def)
qed

subsection \<open>The tick\<close>

lemma rolling_drop: "rolling xs = drop (length xs - MAX_HISTORY) xs"
  by (simp add: rolling_def)

lemma rolling_length: "length (rolling xs) = min (length xs) MAX_HISTORY"
  by (simp add: rolling_def)

lemma rolling_below: "length xs \<le> MAX_HISTORY \<Longrightarrow> rolling xs = xs"
  by (simp add: rolling_def)

lemma tick_Inr:
  assumes "tick getTime isoStr r1 r2 r3 store = Inr store'"
  shows "store \<noteq> [] \<and>
         (\<exists>e. newEntry getTime isoStr r1 r2 r3 (last store) = Inr e \<and>
              store' = rolling (store @ [e]))"
  using assms by (auto simp: tick_def split: if_splits sum.splits)

lemma tick_length:
  assumes "tick getTime isoStr r1 r2 r3 store = Inr store'"
  shows "length store' = min (length store + 1) MAX_HISTORY"
  using tick_Inr[OF assms] by (auto simp: rolling_length)

lemma ticks_length:
  "rs \<noteq> [] \<Longrightarrow> ticks getTime isoStr rs store = Inr store' \<Longrightarrow> length store' \<le> MAX_HISTORY"
proof (induction rs arbitrary: store)
  case Nil
  then show ?case by simp
next
  case (Cons r rs)
  obtain r1 r2 r3 where r: "r = (r1, r2, r3)" by (cases r) auto
  from Cons.prems(2) obtain mid where
    t: "tick getTime isoStr r1 r2 r3 store = Inr mid" and
    k: "ticks getTime isoStr rs mid = Inr store'"
    unfolding r by (auto split: sum.splits)
  show ?case
  proof (cases "rs = []")
    case True
    with k have "store' = mid" by simp
    with tick_length[OF t] show ?thesis by simp
  next
    case False
    from Cons.IH[OF False k] show ?thesis .
  qed
qed

lemma newEntry_Inr:
  assumes "getTime (timestamp lastEntry) = Ms t" and "\<bar>t + 1000\<bar> \<le> max_time"
  shows "newEntry getTime isoStr r1 r2 r3 lastEntry =
           Inr \<lparr>timestamp = JStr (isoStr (t + 1000)),
                pid = pid lastEntry,
                cpu_user_percent = toFixed_num 2 (clamp (cpu_user_percent lastEntry + drift r1)),
                cpu_sys_percent = toFixed_num 2 (clamp (cpu_sys_percent lastEntry + drift r2 / 2)),
                memory_percent =
                  (case newMem r3 lastEntry of
                     None \<Rightarrow> None
                   | Some v \<Rightarrow> if v \<noteq> 0 then Some (toFixed_num 2 v) else None),
                command = command lastEntry\<rparr>"
  using assms by (simp add: newEntry_def new_Date_def tv_add_def toISOString_def)

lemma newEntry_memory:
  assumes "newEntry getTime isoStr r1 r2 r3 lastEntry = Inr e"
  shows "memory_percent e =
           (case newMem r3 lastEntry of
              None \<Rightarrow> None
            | Some v \<Rightarrow> if v \<noteq> 0 then Some (toFixed_num 2 v) else None)"
  using assms by (auto simp: newEntry_def Let_def split: sum.splits)

lemma replicate_numeral: "replicate (numeral k) x = x # replicate (pred_numeral k) x"
  by (simp add: numeral_eq_Suc)

lemmas example_date_simps =
  example_getTime_def example_times_def example_isoStr_def example_day_def pad_def
  digits.simps digit_char_def replicate_numeral max_time_def

lemma example_last_time:
  "example_getTime (timestamp example_last) = Ms 1704103208000"
  by (simp add: example_last_def example_date_simps)

lemma example_isoStr_next:
  "example_isoStr (1704103208000 + 1000) = ''2024-01-01T10:00:09.000Z''"
  by (simp add: example_date_simps)

text \<open>
  C6. The streaming append keeps the store within the capacity of 100: after a tick
  the store is the last 100 entries of the old store followed by the new entry, so
  the oldest entries are the ones dropped, and nothing is dropped while the old store
  has at most 99 entries. A tick on a non-empty store with a valid last timestamp
  does append.
\<close>

theorem rolling_window_capacity:
  "MAX_HISTORY = 100 \<and>
   (store \<noteq> [] \<and> getTime (timestamp (last store)) = Ms t \<and> \<bar>t + 1000\<bar> \<le> max_time \<longrightarrow>
      (\<exists>store'. tick getTime isoStr r1 r2 r3 store = Inr store')) \<and>
   (tick getTime isoStr r1 r2 r3 store = Inr store' \<longrightarrow>
      (\<exists>e. newEntry getTime isoStr r1 r2 r3 (last store) = Inr e \<and>
           store' = drop (length (store @ [e]) - MAX_HISTORY) (store @ [e])) \<and>
      length store' = min (length store + 1) MAX_HISTORY \<and>
      length store' \<le> MAX_HISTORY \<and>
      (length store \<le> MAX_HISTORY - 1 \<longrightarrow>
         butlast store' = store \<and> length store' = length store + 1)) \<and>
   (rs \<noteq> [] \<and> ticks getTime isoStr rs store = Inr final \<longrightarrow> length final \<le> MAX_HISTORY)"
proof -
  have a: "MAX_HISTORY = 100" by (simp add: MAX_HISTORY_def)
  have b: "\<exists>store'. tick getTime isoStr r1 r2 r3 store = Inr store'"
    if "store \<noteq> []" "getTime (timestamp (last store)) = Ms t" "\<bar>t + 1000\<bar> \<le> max_time"
    using that newEntry_Inr[of getTime "last store" t isoStr r1 r2 r3] by (simp add: tick_def)
  have c: "(\<exists>e. newEntry getTime isoStr r1 r2 r3 (last store) = Inr e \<and>
             store' = drop (length (store @ [e]) - MAX_HISTORY) (store @ [e])) \<and>
           length store' = min (length store + 1) MAX_HISTORY \<and>
           length store' \<le> MAX_HISTORY \<and>
           (length store \<le> MAX_HISTORY - 1 \<longrightarrow>
              butlast store' = store \<and> length store' = length store + 1)"
    if t: "tick getTime isoStr r1 r2 r3 store = Inr store'"
  proof -
    from tick_Inr[OF t] obtain e where
      e: "newEntry getTime isoStr r1 r2 r3 (last store) = Inr e" and
      s: "store' = rolling (store @ [e])" by blast
    have "store' = drop (length (store @ [e]) - MAX_HISTORY) (store @ [e])"
      unfolding s by (rule rolling_drop)
    moreover have l: "length store' = min (length store + 1) MAX_HISTORY"
      by (rule tick_length[OF t])
    moreover have "butlast store' = store \<and> length store' = length store + 1"
      if "length store \<le> MAX_HISTORY - 1"
    proof -
      from that have "length (store @ [e]) \<le> MAX_HISTORY" by (simp add: MAX_HISTORY_def)
      then have "store' = store @ [e]" unfolding s by (rule rolling_below)
      then show ?thesis by simp
    qed
    ultimately show ?thesis using e by auto
  qed
  have d: "length final \<le> MAX_HISTORY"
    if "rs \<noteq> []" "ticks getTime isoStr rs store = Inr final"
    using ticks_length[OF that] .
  from a b c d show ?thesis by blast
qed

theorem rolling_window_capacity_witness:
  "\<exists>store'. tick example_getTime example_isoStr (1 / 2) (1 / 2) (1 / 2)
                (replicate 100 example_last) = Inr store' \<and>
             length store' = 100 \<and>
             butlast store' = replicate 99 example_last"
proof -
  let ?store = "replicate 100 example_last"
  have l: "last ?store = example_last" by simp
  have h: "?store \<noteq> [] \<and> example_getTime (timestamp (last ?store)) = Ms 1704103208000 \<and>
           \<bar>1704103208000 + 1000\<bar> \<le> max_time"
    unfolding l by (simp add: example_last_time max_time_def)
  note inst = rolling_window_capacity[of ?store example_getTime 1704103208000 example_isoStr
      "1 / 2" "1 / 2" "1 / 2"]
  from h inst obtain store' where
    t: "tick example_getTime example_isoStr (1 / 2) (1 / 2) (1 / 2) ?store = Inr store'"
    by blast
  from inst[of store'] t obtain e where
    s: "store' = drop (length (?store @ [e]) - MAX_HISTORY) (?store @ [e])" and
    n: "length store' = min (length ?store + 1) MAX_HISTORY"
    by blast
  from n have "length store' = 100" by (simp add: MAX_HISTORY_def)
  moreover from s have "butlast store' = replicate 99 example_last"
    by (simp add: MAX_HISTORY_def butlast_append replicate_numeral flip: replicate_append_same)
  ultimately show ?thesis using t by blast
qed

lemmas tick_eval_simps =
  tick_def newEntry_def newMem_def new_Date_def tv_add_def toISOString_def rolling_def
  MAX_HISTORY_def drift_def clamp_def toFixed_num_def toFixed_int_def

text \<open>
  C5. One tick from a last sample at 50% user, 20% system and 0.5% memory, with draws
  \<open>0.5\<close>, \<open>0.5\<close> and \<open>0.05\<close>: the new sample is one second later and carries
  pid, command and both CPU fields over, but its memory is gone. The memory drift is
  \<open>-0.9\<close>, the clamp gives \<open>0\<close>, and \<^verbatim>\<open>newMem ? ... : undefined\<close> reads that
  \<open>0\<close> as "no memory".
\<close>

theorem tick_drops_clamped_memory:
  "tick example_getTime example_isoStr (1 / 2) (1 / 2) (1 / 20) [example_last] =
     Inr [example_last,
          \<lparr>timestamp = JStr ''2024-01-01T10:00:09.000Z'', pid = JNum 1234,
           cpu_user_percent = 50, cpu_sys_percent = 20,
           memory_percent = None, command = Some (JStr ''python3 worker.py'')\<rparr>]"
  by (simp add: tick_eval_simps example_date_simps example_last_def)

lemma newMem_range:
  assumes "0 \<le> r3" and "r3 < 1" and "memory_percent lastEntry = Some m" and "m \<noteq> 0"
  shows "\<exists>d. - 1 \<le> d \<and> d \<le> 1 \<and> newMem r3 lastEntry = Some (clamp (m + d))"
proof -
  from assms(1,2) have "- 1 \<le> drift r3 / 5 \<and> drift r3 / 5 \<le> 1" by (simp add: drift_def)
  moreover from assms(3,4) have "newMem r3 lastEntry = Some (clamp (m + drift r3 / 5))"
    by (simp add: newMem_def)
  ultimately show ?thesis by blast
qed

text \<open>
  What one tick does produce, for a non-empty store whose last timestamp is a valid
  date and for draws in \<open>[0, 1)\<close>.
\<close>

lemma tick_new_sample:
  assumes "store \<noteq> []"
    and "getTime (timestamp (last store)) = Ms t" and "\<bar>t + 1000\<bar> \<le> max_time"
    and "0 \<le> r1" "r1 < 1" "0 \<le> r2" "r2 < 1"
  shows "\<exists>e du ds.
           tick getTime isoStr r1 r2 r3 store = Inr (rolling (store @ [e])) \<and>
           timestamp e = JStr (isoStr (t + 1000)) \<and>
           pid e = pid (last store) \<and> command e = command (last store) \<and>
           - 5 \<le> du \<and> du \<le> 5 \<and>
           rounded2 (clamp (cpu_user_percent (last store) + du)) (cpu_user_percent e) \<and>
           0 \<le> cpu_user_percent e \<and> cpu_user_percent e \<le> 100 \<and>
           - (5 / 2) \<le> ds \<and> ds \<le> 5 / 2 \<and>
           rounded2 (clamp (cpu_sys_percent (last store) + ds)) (cpu_sys_percent e) \<and>
           0 \<le> cpu_sys_percent e \<and> cpu_sys_percent e \<le> 100"
proof -
  let ?L = "last store"
  let ?u = "clamp (cpu_user_percent ?L + drift r1)"
  let ?s = "clamp (cpu_sys_percent ?L + drift r2 / 2)"
  let ?e = "\<lparr>timestamp = JStr (isoStr (t + 1000)), pid = pid ?L,
             cpu_user_percent = toFixed_num 2 ?u, cpu_sys_percent = toFixed_num 2 ?s,
             memory_percent =
               (case newMem r3 ?L of
                  None \<Rightarrow> None
                | Some v \<Rightarrow> if v \<noteq> 0 then Some (toFixed_num 2 v) else None),
             command = command ?L\<rparr>"
  have n: "newEntry getTime isoStr r1 r2 r3 ?L = Inr ?e"
    using assms(2,3) by (rule newEntry_Inr)
  then have t: "tick getTime isoStr r1 r2 r3 store = Inr (rolling (store @ [?e]))"
    using assms(1) by (simp add: tick_def)
  have du: "- 5 \<le> drift r1 \<and> drift r1 \<le> 5" using assms(4,5) by (simp add: drift_def)
  have ds: "- (5 / 2) \<le> drift r2 / 2 \<and> drift r2 / 2 \<le> 5 / 2"
    using assms(6,7) by (simp add: drift_def)
  have ru: "rounded2 ?u (cpu_user_percent ?e)" by (simp add: toFixed_num_rounded2)
  have rs: "rounded2 ?s (cpu_sys_percent ?e)" by (simp add: toFixed_num_rounded2)
  have bu: "0 \<le> cpu_user_percent ?e \<and> cpu_user_percent ?e \<le> 100"
    using toFixed_num_percent[of ?u] clamp_range[of "cpu_user_percent ?L + drift r1"] by simp
  have bs: "0 \<le> cpu_sys_percent ?e \<and> cpu_sys_percent ?e \<le> 100"
    using toFixed_num_percent[of ?s] clamp_range[of "cpu_sys_percent ?L + drift r2 / 2"] by simp
  have f: "timestamp ?e = JStr (isoStr (t + 1000)) \<and> pid ?e = pid ?L \<and> command ?e = command ?L"
    by simp
  from t f du ru bu ds rs bs show ?thesis by blast
qed

subsection \<open>Parsing a log\<close>








lemma accepted_line_valid: "accepted_line JSON_parse l \<Longrightarrow> valid_line JSON_parse l"
  by (simp add: accepted_line_def)

lemmas example_line_defs =
  example_banner_def example_full_def example_bare_def example_text_memory_def
  example_tiny_memory_def




lemma trim_example_lines:
  "trim example_banner = example_banner" "trim example_full = example_full"
  "trim ''   '' = []" "trim example_bare = example_bare"
  "trim example_text_memory = example_text_memory"
  "trim example_tiny_memory = example_tiny_memory"
  by (simp_all add: trim_def is_space_def example_line_defs)

lemma example_JSON_parse_simps:
  "example_JSON_parse example_banner = None"
  "example_JSON_parse example_full =
     Some (JObj [(''timestamp'', JStr ''2024-01-01T10:00:00''), (''pid'', JNum 42),
                 (''cpu_user_percent'', JNum (12345 / 1000)), (''cpu_sys_percent'', JNum (12 / 10)),
                 (''memory_percent'', JNum (1 / 2))])"
  "example_JSON_parse example_bare =
     Some (JObj [(''cpu_user_percent'', JNum 50), (''cpu_sys_percent'', JNum 20),
                 (''memory_percent'', JNum 0)])"
  "example_JSON_parse example_text_memory =
     Some (JObj [(''cpu_user_percent'', JNum 1), (''cpu_sys_percent'', JNum 2),
                 (''memory_percent'', JStr ''45'')])"
  "example_JSON_parse example_tiny_memory =
     Some (JObj [(''cpu_user_percent'', JNum 3), (''cpu_sys_percent'', JNum 4),
                 (''memory_percent'', JNum (4 / 1000))])"
  by (simp_all add: example_JSON_parse_def example_line_defs)

lemma example_lines_nonempty:
  "example_banner \<noteq> []" "example_full \<noteq> []" "example_bare \<noteq> []"
  "example_text_memory \<noteq> []" "example_tiny_memory \<noteq> []"
  by (simp_all add: example_line_defs)






subsection \<open>Statistics\<close>

lemma fold_stats_memory:
  "memCount (fold stats_each fd s) = memCount s + length (List.map_filter memory_percent fd) \<and>
   sumMem (fold stats_each fd s) = sumMem s + sum_list (List.map_filter memory_percent fd)"
proof (induction fd arbitrary: s)
  case Nil
  then show ?case by (simp add: List.map_filter_simps)
next
  case (Cons d fd)
  show ?case
  proof (cases "memory_percent d")
    case None
    then show ?thesis using Cons.IH[of "stats_each d s"]
      by (simp add: List.map_filter_simps stats_each_def Let_def)
  next
    case (Some m)
    then show ?thesis using Cons.IH[of "stats_each d s"]
      by (simp add: List.map_filter_simps stats_each_def Let_def)
  qed
qed

lemma stats_nonempty:
  assumes "fd \<noteq> []"
  shows "count (stats fd) = length fd \<and>
         avgMem (stats fd) =
           (let ms = List.map_filter memory_percent fd
            in if ms = [] then JStr ''N/A''
               else JStr (toFixed 1 (sum_list ms / of_nat (length ms))))"
  using assms fold_stats_memory[of fd
      "\<lparr>sumUser = 0, sumSys = 0, sumMem = 0, maxTotalAcc = 0, memCount = 0\<rparr>"]
  by (simp add: stats_def Let_def)

lemma map_filter_empty_iff:
  "List.map_filter f xs = [] \<longleftrightarrow> (\<forall>x \<in> set xs. f x = None)"
  by (induction xs) (auto simp: List.map_filter_simps split: option.splits)

text \<open>
  C4, as it holds. On the empty sequence every field of the statistics, \<open>avgMem\<close>
  among them, is the number \<open>0\<close>. The marker \<^verbatim>\<open>'N/A'\<close>, which is not the number
  \<open>0\<close>, is what a non-empty sequence gives when none of its samples carries memory;
  with memory data \<open>avgMem\<close> is the mean of the memory values that are present.
\<close>

theorem stats_empty_and_marker:
  "stats [] = \<lparr>avgUser = JNum 0, avgSys = JNum 0, maxTotal = JNum 0, avgMem = JNum 0, count = 0\<rparr> \<and>
   (fd \<noteq> [] \<longrightarrow>
      count (stats fd) = length fd \<and>
      ((\<forall>d \<in> set fd. memory_percent d = None) \<longrightarrow> avgMem (stats fd) = JStr ''N/A'') \<and>
      ((\<exists>d \<in> set fd. memory_percent d \<noteq> None) \<longrightarrow>
         avgMem (stats fd) =
           JStr (toFixed 1 (sum_list (List.map_filter memory_percent fd) /
                            of_nat (length (List.map_filter memory_percent fd)))))) \<and>
   JStr ''N/A'' \<noteq> JNum 0"
proof -
  have a: "stats [] =
      \<lparr>avgUser = JNum 0, avgSys = JNum 0, maxTotal = JNum 0, avgMem = JNum 0, count = 0\<rparr>"
    by (simp add: stats_def)
  have b: "count (stats fd) = length fd \<and>
      ((\<forall>d \<in> set fd. memory_percent d = None) \<longrightarrow> avgMem (stats fd) = JStr ''N/A'') \<and>
      ((\<exists>d \<in> set fd. memory_percent d \<noteq> None) \<longrightarrow>
         avgMem (stats fd) =
           JStr (toFixed 1 (sum_list (List.map_filter memory_percent fd) /
                            of_nat (length (List.map_filter memory_percent fd)))))"
    if "fd \<noteq> []"
    using stats_nonempty[OF that] map_filter_empty_iff[of memory_percent fd]
    by (auto simp: Let_def)
  from a b show ?thesis by blast
qed

lemma stats_example_series_eval:
  "List.map_filter memory_percent example_series = []"
  by (simp add: example_series_def example_sample_def List.map_filter_simps)

theorem stats_empty_and_marker_witness:
  "avgMem (stats example_series) = JStr ''N/A'' \<and> count (stats example_series) = 9 \<and>
   avgMem (stats [example_last]) = JStr ''0.5''"
proof -
  have n: "example_series \<noteq> []" by (simp add: example_series_def)
  have m: "\<forall>d \<in> set example_series. memory_percent d = None"
    by (simp add: example_series_def example_sample_def)
  have l: "length example_series = 9" by (simp add: example_series_def)
  have p: "\<exists>d \<in> set [example_last]. memory_percent d \<noteq> None" by (simp add: example_last_def)
  have f: "List.map_filter memory_percent [example_last] = [1 / 2]"
    by (simp add: example_last_def List.map_filter_simps)
  have t: "toFixed 1 (1 / 2) = ''0.5''"
    by (simp add: toFixed_def toFixed_int_def digits.simps digit_char_def)
  from stats_empty_and_marker[of example_series] n m l
  have a: "avgMem (stats example_series) = JStr ''N/A'' \<and> count (stats example_series) = 9"
    by simp
  from stats_empty_and_marker[of "[example_last]"] p
  have "avgMem (stats [example_last]) =
          JStr (toFixed 1 (sum_list (List.map_filter memory_percent [example_last]) /
                            of_nat (length (List.map_filter memory_percent [example_last]))))"
    by blast
  moreover have "sum_list [1 / 2 :: rat] / of_nat (length [1 / 2 :: rat]) = 1 / 2" by simp
  ultimately have "avgMem (stats [example_last]) = JStr ''0.5''"
    by (simp only: f t)
  with a show ?thesis by blast
qed

text \<open>
  C4 as it is worded fails: on the empty sequence \<open>avgMem\<close> is the number \<open>0\<close>, which
  is not the marker a sequence without memory data gets.
\<close>

theorem stats_empty_avgMem_is_zero:
  "avgMem (stats []) = JNum 0 \<and>
   avgMem (stats example_series) = JStr ''N/A'' \<and>
   avgMem (stats []) \<noteq> avgMem (stats example_series)"
proof -
  have "example_series \<noteq> []" by (simp add: example_series_def)
  from stats_nonempty[OF this] have "avgMem (stats example_series) = JStr ''N/A''"
    by (simp add: stats_example_series_eval)
  moreover have "avgMem (stats []) = JNum 0" by (simp add: stats_def)
  ultimately show ?thesis by simp
qed

subsection \<open>Memory of zero\<close>

lemma parse_line_zero_memory:
  assumes "trim line \<noteq> []" and "JSON_parse (trim line) = Some (JObj entry)"
    and "is_number (map_of entry ''cpu_user_percent'')"
    and "is_number (map_of entry ''cpu_sys_percent'')"
    and "map_of entry ''memory_percent'' = Some (JNum m)"
  shows "\<exists>e. parse_line JSON_parse now line = Pushed e \<and>
             memory_percent e = (if m = 0 then None else Some (toFixed_num 2 m))"
proof -
  from assms(3) obtain u where u: "map_of entry ''cpu_user_percent'' = Some (JNum u)"
    by (auto simp: is_number_def split: option.splits json.splits)
  from assms(4) obtain s where s: "map_of entry ''cpu_sys_percent'' = Some (JNum s)"
    by (auto simp: is_number_def split: option.splits json.splits)
  show ?thesis
    using assms(1,2,5) u s by (simp add: parse_line_def memory_field_def)
qed

lemma newEntry_memory_cases:
  assumes "newEntry getTime isoStr r1 r2 r3 lastEntry = Inr e"
  shows "(memory_percent lastEntry = None \<longrightarrow> memory_percent e = None) \<and>
         (memory_percent lastEntry = Some 0 \<longrightarrow> memory_percent e = None) \<and>
         (\<forall>m. memory_percent lastEntry = Some m \<and> clamp (m + drift r3 / 5) = 0 \<longrightarrow>
              memory_percent e = None) \<and>
         (\<forall>m. memory_percent lastEntry = Some m \<and> m \<noteq> 0 \<and> clamp (m + drift r3 / 5) \<noteq> 0 \<longrightarrow>
              memory_percent e = Some (toFixed_num 2 (clamp (m + drift r3 / 5))))"
  unfolding newEntry_memory[OF assms] by (simp add: newMem_def)

text \<open>
  C10, as it holds. A line whose decoded \<^verbatim>\<open>memory_percent\<close> is the number \<open>0\<close>
  gives a sample without memory, and so does a tick whose last sample has memory \<open>0\<close>
  or none, or whose clamped memory is exactly \<open>0\<close> before it is rounded. Any other
  number is rounded and kept, also when it rounds to \<open>0\<close>. The statistics average the
  memory over the samples that carry one, a stored \<open>0\<close> included.
\<close>

theorem zero_memory_read_as_absent:
  "(trim line \<noteq> [] \<and> JSON_parse (trim line) = Some (JObj entry) \<and>
    is_number (map_of entry ''cpu_user_percent'') \<and>
    is_number (map_of entry ''cpu_sys_percent'') \<longrightarrow>
      (map_of entry ''memory_percent'' = Some (JNum 0) \<longrightarrow>
         (\<exists>e. parse_line JSON_parse now line = Pushed e \<and> memory_percent e = None)) \<and>
      (\<forall>m. map_of entry ''memory_percent'' = Some (JNum m) \<and> m \<noteq> 0 \<longrightarrow>
         (\<exists>e. parse_line JSON_parse now line = Pushed e \<and>
              memory_percent e = Some (toFixed_num 2 m)))) \<and>
   (newEntry getTime isoStr r1 r2 r3 lastEntry = Inr e' \<longrightarrow>
      (memory_percent lastEntry = None \<longrightarrow> memory_percent e' = None) \<and>
      (memory_percent lastEntry = Some 0 \<longrightarrow> memory_percent e' = None) \<and>
      (\<forall>m. memory_percent lastEntry = Some m \<and> clamp (m + drift r3 / 5) = 0 \<longrightarrow>
           memory_percent e' = None) \<and>
      (\<forall>m. memory_percent lastEntry = Some m \<and> m \<noteq> 0 \<and> clamp (m + drift r3 / 5) \<noteq> 0 \<longrightarrow>
           memory_percent e' = Some (toFixed_num 2 (clamp (m + drift r3 / 5))))) \<and>
   (fd \<noteq> [] \<longrightarrow>
      avgMem (stats fd) =
        (let ms = List.map_filter memory_percent fd
         in if ms = [] then JStr ''N/A''
            else JStr (toFixed 1 (sum_list ms / of_nat (length ms)))))"
proof -
  have a: "(map_of entry ''memory_percent'' = Some (JNum 0) \<longrightarrow>
         (\<exists>e. parse_line JSON_parse now line = Pushed e \<and> memory_percent e = None)) \<and>
      (\<forall>m. map_of entry ''memory_percent'' = Some (JNum m) \<and> m \<noteq> 0 \<longrightarrow>
         (\<exists>e. parse_line JSON_parse now line = Pushed e \<and>
              memory_percent e = Some (toFixed_num 2 m)))"
    if h: "trim line \<noteq> [] \<and> JSON_parse (trim line) = Some (JObj entry) \<and>
        is_number (map_of entry ''cpu_user_percent'') \<and>
        is_number (map_of entry ''cpu_sys_percent'')"
  proof -
    have "\<exists>e. parse_line JSON_parse now line = Pushed e \<and>
             memory_percent e = (if m = 0 then None else Some (toFixed_num 2 m))"
      if "map_of entry ''memory_percent'' = Some (JNum m)" for m
      using h that parse_line_zero_memory[of line JSON_parse entry m now] by blast
    then show ?thesis by (metis (full_types))
  qed
  have b: "(memory_percent lastEntry = None \<longrightarrow> memory_percent e' = None) \<and>
      (memory_percent lastEntry = Some 0 \<longrightarrow> memory_percent e' = None) \<and>
      (\<forall>m. memory_percent lastEntry = Some m \<and> clamp (m + drift r3 / 5) = 0 \<longrightarrow>
           memory_percent e' = None) \<and>
      (\<forall>m. memory_percent lastEntry = Some m \<and> m \<noteq> 0 \<and> clamp (m + drift r3 / 5) \<noteq> 0 \<longrightarrow>
           memory_percent e' = Some (toFixed_num 2 (clamp (m + drift r3 / 5))))"
    if "newEntry getTime isoStr r1 r2 r3 lastEntry = Inr e'"
    using that by (rule newEntry_memory_cases)
  have c: "avgMem (stats fd) =
        (let ms = List.map_filter memory_percent fd
         in if ms = [] then JStr ''N/A''
            else JStr (toFixed 1 (sum_list ms / of_nat (length ms))))"
    if "fd \<noteq> []"
    using stats_nonempty[OF that] by blast
  from a b c show ?thesis by blast
qed

theorem zero_memory_read_as_absent_witness:
  "(\<exists>e. parse_line example_JSON_parse (example_clock 0) example_bare = Pushed e \<and>
        memory_percent e = None) \<and>
   (\<exists>e'. newEntry example_getTime example_isoStr (1 / 2) (1 / 2) (1 / 2)
            (example_last\<lparr>memory_percent := Some 0\<rparr>) = Inr e' \<and>
         memory_percent e' = None)"
proof -
  let ?entry = "[(''cpu_user_percent'', JNum 50), (''cpu_sys_percent'', JNum 20),
                 (''memory_percent'', JNum 0)]"
  let ?L = "example_last\<lparr>memory_percent := Some 0\<rparr>"
  have h: "trim example_bare \<noteq> [] \<and> example_JSON_parse (trim example_bare) = Some (JObj ?entry) \<and>
        is_number (map_of ?entry ''cpu_user_percent'') \<and>
        is_number (map_of ?entry ''cpu_sys_percent'')"
    by (simp add: trim_example_lines example_JSON_parse_simps example_lines_nonempty is_number_def)
  have m: "map_of ?entry ''memory_percent'' = Some (JNum 0)" by simp
  have t: "example_getTime (timestamp ?L) = Ms 1704103208000"
    using example_last_time by simp
  have "\<bar>1704103208000 + 1000\<bar> \<le> max_time" by (simp add: max_time_def)
  from newEntry_Inr[of example_getTime ?L 1704103208000, OF t this]
  obtain e' where n: "newEntry example_getTime example_isoStr (1 / 2) (1 / 2) (1 / 2) ?L = Inr e'"
    by blast
  have z: "memory_percent ?L = Some 0" by simp
  note inst = zero_memory_read_as_absent[of example_bare example_JSON_parse ?entry
      "example_clock 0" example_getTime example_isoStr "1 / 2" "1 / 2" "1 / 2" ?L e']
  from inst h m have "\<exists>e. parse_line example_JSON_parse (example_clock 0) example_bare = Pushed e \<and>
        memory_percent e = None" by blast
  moreover from inst n z have "memory_percent e' = None" by blast
  ultimately show ?thesis using n by blast
qed

text \<open>
  C10 as it is worded fails where the clamped memory is positive but rounds to
  \<open>0.00\<close>: from a memory of \<open>0.1\<close> and a draw of \<open>0.4515\<close> the clamped value is
  \<open>0.003\<close>, the value stored is \<open>0\<close>, and the new sample does carry it. The statistics
  count that sample: its \<open>avgMem\<close> is \<^verbatim>\<open>"0.0"\<close>, where a sample without memory
  gives \<^verbatim>\<open>'N/A'\<close>.
\<close>

theorem rounded_zero_memory_is_kept:
  "clamp (1 / 10 + drift (903 / 2000) / 5) = 3 / 1000 \<and>
   toFixed_num 2 (clamp (1 / 10 + drift (903 / 2000) / 5)) = 0 \<and>
   newEntry example_getTime example_isoStr (1 / 2) (1 / 2) (903 / 2000)
       (example_last\<lparr>memory_percent := Some (1 / 10)\<rparr>) =
     Inr \<lparr>timestamp = JStr ''2024-01-01T10:00:09.000Z'', pid = JNum 1234,
          cpu_user_percent = 50, cpu_sys_percent = 20,
          memory_percent = Some 0, command = Some (JStr ''python3 worker.py'')\<rparr> \<and>
   avgMem (stats [\<lparr>timestamp = JStr ''2024-01-01T10:00:09.000Z'', pid = JNum 1234,
                   cpu_user_percent = 50, cpu_sys_percent = 20,
                   memory_percent = Some 0, command = Some (JStr ''python3 worker.py'')\<rparr>]) =
     JStr ''0.0''"
proof -
  have a: "clamp (1 / 10 + drift (903 / 2000) / 5) = 3 / 1000"
    by (simp add: clamp_def drift_def)
  have b: "toFixed_num 2 (3 / 1000) = 0" by (simp add: toFixed_num_def toFixed_int_def)
  have c: "newEntry example_getTime example_isoStr (1 / 2) (1 / 2) (903 / 2000)
       (example_last\<lparr>memory_percent := Some (1 / 10)\<rparr>) =
     Inr \<lparr>timestamp = JStr ''2024-01-01T10:00:09.000Z'', pid = JNum 1234,
          cpu_user_percent = 50, cpu_sys_percent = 20,
          memory_percent = Some 0, command = Some (JStr ''python3 worker.py'')\<rparr>"
    by (simp add: tick_eval_simps example_date_simps example_last_def)
  have d: "toFixed 1 0 = ''0.0''"
    by (simp add: toFixed_def toFixed_int_def digits.simps digit_char_def)
  have e: "avgMem (stats [\<lparr>timestamp = JStr ''2024-01-01T10:00:09.000Z'', pid = JNum 1234,
                   cpu_user_percent = 50, cpu_sys_percent = 20,
                   memory_percent = Some 0, command = Some (JStr ''python3 worker.py'')\<rparr>]) =
     JStr (toFixed 1 0)"
    by (simp add: stats_def stats_each_def)
  from a b c d e show ?thesis by (simp only:)
qed

subsection \<open>Range filter\<close>

lemma tv_le_Ms:
  "tv_le (Ms a) (Ms b) = (a \<le> b)" "tv_le NegInfinity (Ms b)" "tv_le (Ms a) PosInfinity"
  by simp_all

lemma filter_valid_id:
  assumes "\<forall>d \<in> set xs. \<exists>t. getTime (timestamp d) = Ms t"
  shows "filter (\<lambda>d. in_range None None (getTime (timestamp d))) xs = xs"
proof -
  have "in_range None None (getTime (timestamp d))" if "d \<in> set xs" for d
    using assms that by (auto simp: in_range_def)
  then show ?thesis by (simp add: filter_id_conv)
qed

text \<open>
  C7. With both bounds absent the filter returns its input. With the range filter in
  force (the view is not streaming), bounds that are dates and samples whose
  timestamps are dates, it returns, in the order of the input, exactly the samples
  whose time \<open>t\<close> has \<open>S \<le> t \<le> E\<close>, an absent bound not bounding; a sample on a
  boundary is kept.
\<close>

theorem filteredData_inclusive_range:
  "filteredData getTime isStreaming [] [] localData = localData \<and>
   ((filterStart \<noteq> [] \<longrightarrow> getTime (JStr filterStart) = Ms S) \<and>
    (filterEnd \<noteq> [] \<longrightarrow> getTime (JStr filterEnd) = Ms E) \<and>
    (\<forall>d \<in> set localData. \<exists>t. getTime (timestamp d) = Ms t) \<longrightarrow>
      filteredData getTime False filterStart filterEnd localData =
        filter (\<lambda>d. in_range (if filterStart = [] then None else Some S)
                          (if filterEnd = [] then None else Some E)
                          (getTime (timestamp d))) localData \<and>
      (\<forall>d \<in> set localData.
          S \<le> E \<and> (getTime (timestamp d) = Ms S \<or> getTime (timestamp d) = Ms E) \<longrightarrow>
          d \<in> set (filteredData getTime False filterStart filterEnd localData)))"
proof -
  have a: "filteredData getTime isStreaming [] [] localData = localData"
    by (simp add: filteredData_def)
  have b: "filteredData getTime False filterStart filterEnd localData =
        filter (\<lambda>d. in_range (if filterStart = [] then None else Some S)
                          (if filterEnd = [] then None else Some E)
                          (getTime (timestamp d))) localData"
    if s: "filterStart \<noteq> [] \<longrightarrow> getTime (JStr filterStart) = Ms S"
      and e: "filterEnd \<noteq> [] \<longrightarrow> getTime (JStr filterEnd) = Ms E"
      and v: "\<forall>d \<in> set localData. \<exists>t. getTime (timestamp d) = Ms t"
  proof (cases "filterStart = [] \<and> filterEnd = []")
    case True
    then show ?thesis using filter_valid_id[OF v] by (simp add: filteredData_def)
  next
    case False
    let ?P = "\<lambda>d. tv_le (if filterStart \<noteq> [] then getTime (JStr filterStart) else NegInfinity)
                     (getTime (timestamp d)) \<and>
                 tv_le (getTime (timestamp d))
                     (if filterEnd \<noteq> [] then getTime (JStr filterEnd) else PosInfinity)"
    let ?Q = "\<lambda>d. in_range (if filterStart = [] then None else Some S)
                 (if filterEnd = [] then None else Some E) (getTime (timestamp d))"
    have "?P d = ?Q d" if "d \<in> set localData" for d
    proof -
      from v that obtain t where t: "getTime (timestamp d) = Ms t" by blast
      show ?thesis unfolding t using s e by (simp add: in_range_def)
    qed
    then have "filter ?P localData = filter ?Q localData"
      by (intro filter_cong refl)
    moreover have "filteredData getTime False filterStart filterEnd localData = filter ?P localData"
      using False
      by (cases "filterStart = []"; cases "filterEnd = []") (simp_all add: filteredData_def Let_def)
    ultimately show ?thesis by (simp only:)
  qed
  have c: "d \<in> set (filteredData getTime False filterStart filterEnd localData)"
    if s: "filterStart \<noteq> [] \<longrightarrow> getTime (JStr filterStart) = Ms S"
      and e: "filterEnd \<noteq> [] \<longrightarrow> getTime (JStr filterEnd) = Ms E"
      and v: "\<forall>d \<in> set localData. \<exists>t. getTime (timestamp d) = Ms t"
      and d: "d \<in> set localData" "S \<le> E"
        "getTime (timestamp d) = Ms S \<or> getTime (timestamp d) = Ms E"
    for d
    unfolding b[OF s e v] using d by (auto simp: in_range_def)
  from a b c show ?thesis by blast
qed

lemma example_series_times:
  "map (\<lambda>d. example_getTime (timestamp d)) example_series =
     [Ms 1704103200000, Ms 1704103201000, Ms 1704103202000, Ms 1704103203000,
      Ms 1704103204000, Ms 1704103205000, Ms 1704103206000, Ms 1704103207000,
      Ms 1704103208000]"
  by (simp add: example_series_def example_sample_def example_getTime_def example_times_def)

theorem filteredData_inclusive_range_witness:
  "filteredData example_getTime False ''2024-01-01T10:00:02'' ''2024-01-01T10:00:05''
       example_series =
     [example_sample ''2024-01-01T10:00:02'' 60 30,
      example_sample ''2024-01-01T10:00:03'' 8 2,
      example_sample ''2024-01-01T10:00:04'' 75 20,
      example_sample ''2024-01-01T10:00:05'' 90 5]"
proof -
  have s: "''2024-01-01T10:00:02'' \<noteq> [] \<longrightarrow>
      example_getTime (JStr ''2024-01-01T10:00:02'') = Ms 1704103202000"
    by (simp add: example_getTime_def example_times_def)
  have e: "''2024-01-01T10:00:05'' \<noteq> [] \<longrightarrow>
      example_getTime (JStr ''2024-01-01T10:00:05'') = Ms 1704103205000"
    by (simp add: example_getTime_def example_times_def)
  have v: "\<forall>d \<in> set example_series. \<exists>t. example_getTime (timestamp d) = Ms t"
    by (simp add: example_series_def example_sample_def example_getTime_def example_times_def)
  from filteredData_inclusive_range[of example_getTime _ example_series
      "''2024-01-01T10:00:02''" 1704103202000 "''2024-01-01T10:00:05''" 1704103205000] s e v
  have "filteredData example_getTime False ''2024-01-01T10:00:02'' ''2024-01-01T10:00:05''
       example_series =
     filter (\<lambda>d. in_range (if ''2024-01-01T10:00:02'' = [] then None else Some 1704103202000)
                       (if ''2024-01-01T10:00:05'' = [] then None else Some 1704103205000)
                       (example_getTime (timestamp d))) example_series"
    by blast
  then show ?thesis
    by (simp add: example_series_def example_sample_def example_getTime_def example_times_def
        in_range_def)
qed

subsection \<open>Analysis requester\<close>

text \<open>
  C2. The call raises exactly when the API key is missing (undefined or empty): the
  check comes first, no request is made, and what is raised is an error, not a
  result. With a key, one request is made with the downsampled payload; when it
  rejects, answers no text or answers text that does not decode, the call returns the
  fallback object and raises nothing.
\<close>

theorem analyzeCpuData_failures:
  "((\<exists>err. fst (analyzeCpuData API_KEY generateContent JSON_parse data) = Inl err) \<longleftrightarrow>
      key_missing API_KEY) \<and>
   (key_missing API_KEY \<longrightarrow>
      analyzeCpuData API_KEY generateContent JSON_parse data =
        (Inl (Error ''API Key not found. Please ensure process.env.API_KEY is set.''), [])) \<and>
   (\<not> key_missing API_KEY \<longrightarrow>
      snd (analyzeCpuData API_KEY generateContent JSON_parse data) = [sampledData data]) \<and>
   (\<not> key_missing API_KEY \<and> call_fails generateContent JSON_parse data \<longrightarrow>
      fst (analyzeCpuData API_KEY generateContent JSON_parse data) = Inr fallback) \<and>
   fallback =
     JObj [(''summary'', JStr ''Failed to generate analysis using AI.''),
           (''recommendations'',
              JArr [JStr ''Check your network connection'', JStr ''Verify API Key'']),
           (''severity'', JStr ''LOW'')]"
  by (auto simp: analyzeCpuData_def call_fails_def fallback_def Let_def
      split: gen_outcome.splits option.splits)

theorem analyzeCpuData_failures_witness:
  "analyzeCpuData None (\<lambda>payload. Rejects (Error ''fetch failed'')) example_JSON_parse
       example_series =
     (Inl (Error ''API Key not found. Please ensure process.env.API_KEY is set.''), []) \<and>
   fst (analyzeCpuData (Some ''secret'') (\<lambda>payload. Rejects (Error ''fetch failed''))
          example_JSON_parse example_series) = Inr fallback \<and>
   fst (analyzeCpuData (Some ''secret'') (\<lambda>payload. Resolves (Some example_banner))
          example_JSON_parse example_series) = Inr fallback \<and>
   snd (analyzeCpuData (Some ''secret'') (\<lambda>payload. Resolves None)
          example_JSON_parse example_series) = [example_series]"
proof -
  have k: "key_missing None" "\<not> key_missing (Some ''secret'')" by (simp_all add: key_missing_def)
  have f1: "call_fails (\<lambda>payload. Rejects (Error ''fetch failed'')) example_JSON_parse example_series"
    by (simp add: call_fails_def)
  have f2: "call_fails (\<lambda>payload. Resolves (Some example_banner)) example_JSON_parse example_series"
    by (simp add: call_fails_def example_JSON_parse_simps)
  have ne: "example_series \<noteq> []" "length example_series \<le> 100" by (simp_all add: example_series_def)
  then have s: "sampledData example_series = example_series" by (simp add: sampledData_small)
  from analyzeCpuData_failures[of None "\<lambda>payload. Rejects (Error ''fetch failed'')"
      example_JSON_parse example_series] k(1)
  have a: "analyzeCpuData None (\<lambda>payload. Rejects (Error ''fetch failed'')) example_JSON_parse
       example_series =
     (Inl (Error ''API Key not found. Please ensure process.env.API_KEY is set.''), [])"
    by blast
  from analyzeCpuData_failures[of "Some ''secret''" "\<lambda>payload. Rejects (Error ''fetch failed'')"
      example_JSON_parse example_series] k(2) f1
  have b: "fst (analyzeCpuData (Some ''secret'') (\<lambda>payload. Rejects (Error ''fetch failed''))
          example_JSON_parse example_series) = Inr fallback"
    by blast
  from analyzeCpuData_failures[of "Some ''secret''" "\<lambda>payload. Resolves (Some example_banner)"
      example_JSON_parse example_series] k(2) f2
  have c: "fst (analyzeCpuData (Some ''secret'') (\<lambda>payload. Resolves (Some example_banner))
          example_JSON_parse example_series) = Inr fallback"
    by blast
  from analyzeCpuData_failures[of "Some ''secret''" "\<lambda>payload. Resolves None"
      example_JSON_parse example_series] k(2)
  have "snd (analyzeCpuData (Some ''secret'') (\<lambda>payload. Resolves None)
          example_JSON_parse example_series) = [sampledData example_series]"
    by blast
  then have d: "snd (analyzeCpuData (Some ''secret'') (\<lambda>payload. Resolves None)
          example_JSON_parse example_series) = [example_series]"
    by (simp only: s)
  from a b c d show ?thesis by blast
qed

subsection \<open>Demonstration data\<close>

declare mock_loop.simps [simp del]

lemma mock_entry_Inr:
  assumes "\<bar>now - (60 - int i) * 1000\<bar> \<le> max_time"
  shows "mock_entry now isoStr random i =
           Inr \<lparr>timestamp = JStr (isoStr (now - (60 - int i) * 1000)),
                pid = JNum 1234,
                cpu_user_percent =
                  min 100 ((if i > 40 \<and> i < 50 then 60 else 10) + random (3 * i) * 10),
                cpu_sys_percent =
                  min 100 ((if i > 40 \<and> i < 50 then 20 else 2) + random (3 * i + 1) * 5),
                memory_percent = Some (45 + random (3 * i + 2)),
                command = Some (JStr ''python3 worker.py'')\<rparr>"
  using assms by (simp add: mock_entry_def new_Date_def toISOString_def Let_def)

lemma mock_loop_map:
  assumes "\<forall>k. i \<le> k \<and> k < 60 \<longrightarrow> mock_entry now isoStr random k = Inr (f k)"
  shows "mock_loop now isoStr random i data = Inr (data @ map f [i..<60])"
  using assms
proof (induction now isoStr random i data rule: mock_loop.induct)
  case (1 now isoStr random i data)
  show ?case
  proof (cases "i < 60")
    case True
    with "1.prems" have e: "mock_entry now isoStr random i = Inr (f i)" by simp
    have "mock_loop now isoStr random (i + 1) (data @ [f i]) =
            Inr ((data @ [f i]) @ map f [i + 1..<60])"
      using "1.IH"[OF True e] "1.prems" by simp
    moreover have "[i..<60] = i # [i + 1..<60]" using True by (simp add: upt_conv_Cons)
    ultimately show ?thesis using True e by (simp add: mock_loop.simps[of now isoStr random i])
  next
    case False
    then show ?thesis by (simp add: mock_loop.simps[of now isoStr random i])
  qed
qed

lemma mock_times_valid:
  assumes "\<bar>now\<bar> + 60000 \<le> max_time" and "k < 60"
  shows "\<bar>now - (60 - int k) * 1000\<bar> \<le> max_time"
proof -
  from assms(2) have "0 \<le> int k" "int k < 60" by simp_all
  then have "0 \<le> (60 - int k) * 1000" "(60 - int k) * 1000 \<le> 60000" by simp_all
  with assms(1) show ?thesis by linarith
qed

lemma generateMockData_map:
  assumes "\<bar>now\<bar> + 60000 \<le> max_time"
  shows "generateMockData now isoStr random =
           Inr (map (\<lambda>i. \<lparr>timestamp = JStr (isoStr (now - (60 - int i) * 1000)),
                pid = JNum 1234,
                cpu_user_percent =
                  min 100 ((if i > 40 \<and> i < 50 then 60 else 10) + random (3 * i) * 10),
                cpu_sys_percent =
                  min 100 ((if i > 40 \<and> i < 50 then 20 else 2) + random (3 * i + 1) * 5),
                memory_percent = Some (45 + random (3 * i + 2)),
                command = Some (JStr ''python3 worker.py'')\<rparr>) [0..<60])"
proof -
  have "\<forall>k. 0 \<le> k \<and> k < 60 \<longrightarrow> mock_entry now isoStr random k =
      Inr ((\<lambda>i. \<lparr>timestamp = JStr (isoStr (now - (60 - int i) * 1000)),
                pid = JNum 1234,
                cpu_user_percent =
                  min 100 ((if i > 40 \<and> i < 50 then 60 else 10) + random (3 * i) * 10),
                cpu_sys_percent =
                  min 100 ((if i > 40 \<and> i < 50 then 20 else 2) + random (3 * i + 1) * 5),
                memory_percent = Some (45 + random (3 * i + 2)),
                command = Some (JStr ''python3 worker.py'')\<rparr>) k)"
    using mock_entry_Inr[OF mock_times_valid[OF assms]] by blast
  from mock_loop_map[OF this, of "[]"] show ?thesis by (simp add: generateMockData_def)
qed

text \<open>
  C9, as it holds. The generator returns 60 samples one second apart, the first 60
  seconds and the last one second before the current instant. The samples at the
  indices strictly between 40 and 50 have elevated CPU, user near 60 and system near
  20: the base plus a jitter of at most 10 for user and at most 5 for system. All
  other samples sit at the baseline, user near 10 and system near 2, with the same
  jitter. Every sample has memory near 45 (plus a jitter of at most 1), pid 1234 and
  the command \<^verbatim>\<open>python3 worker.py\<close>.
\<close>

theorem generateMockData_shape:
  assumes "\<bar>now\<bar> + 60000 \<le> max_time" and "\<forall>k. 0 \<le> random k \<and> random k \<le> 1"
  shows "\<exists>data. generateMockData now isoStr random = Inr data \<and> length data = 60 \<and>
           (\<forall>i<60.
              timestamp (data ! i) = JStr (isoStr (now - 60000 + int i * 1000)) \<and>
              pid (data ! i) = JNum 1234 \<and>
              command (data ! i) = Some (JStr ''python3 worker.py'') \<and>
              (40 < i \<and> i < 50 \<longrightarrow>
                 60 \<le> cpu_user_percent (data ! i) \<and> cpu_user_percent (data ! i) \<le> 70 \<and>
                 20 \<le> cpu_sys_percent (data ! i) \<and> cpu_sys_percent (data ! i) \<le> 25) \<and>
              (\<not> (40 < i \<and> i < 50) \<longrightarrow>
                 10 \<le> cpu_user_percent (data ! i) \<and> cpu_user_percent (data ! i) \<le> 20 \<and>
                 2 \<le> cpu_sys_percent (data ! i) \<and> cpu_sys_percent (data ! i) \<le> 7) \<and>
              (\<exists>m. memory_percent (data ! i) = Some m \<and> 45 \<le> m \<and> m \<le> 46)) \<and>
           timestamp (last data) = JStr (isoStr (now - 1000))"
proof -
  let ?f = "\<lambda>i. \<lparr>timestamp = JStr (isoStr (now - (60 - int i) * 1000)),
                pid = JNum 1234,
                cpu_user_percent =
                  min 100 ((if i > 40 \<and> i < 50 then 60 else 10) + random (3 * i) * 10),
                cpu_sys_percent =
                  min 100 ((if i > 40 \<and> i < 50 then 20 else 2) + random (3 * i + 1) * 5),
                memory_percent = Some (45 + random (3 * i + 2)),
                command = Some (JStr ''python3 worker.py'')\<rparr>"
  let ?data = "map ?f [0..<60]"
  have g: "generateMockData now isoStr random = Inr ?data"
    using assms(1) by (rule generateMockData_map)
  have l: "length ?data = 60" by simp
  have n: "?data ! i = ?f i" if "i < 60" for i using that by simp
  have r: "0 \<le> random k \<and> random k \<le> 1" for k using assms(2) by blast
  have t: "now - (60000 - int i * 1000) = now - 60000 + int i * 1000" for i by simp
  have p: "timestamp (?data ! i) = JStr (isoStr (now - 60000 + int i * 1000)) \<and>
              pid (?data ! i) = JNum 1234 \<and>
              command (?data ! i) = Some (JStr ''python3 worker.py'') \<and>
              (40 < i \<and> i < 50 \<longrightarrow>
                 60 \<le> cpu_user_percent (?data ! i) \<and> cpu_user_percent (?data ! i) \<le> 70 \<and>
                 20 \<le> cpu_sys_percent (?data ! i) \<and> cpu_sys_percent (?data ! i) \<le> 25) \<and>
              (\<not> (40 < i \<and> i < 50) \<longrightarrow>
                 10 \<le> cpu_user_percent (?data ! i) \<and> cpu_user_percent (?data ! i) \<le> 20 \<and>
                 2 \<le> cpu_sys_percent (?data ! i) \<and> cpu_sys_percent (?data ! i) \<le> 7) \<and>
              (\<exists>m. memory_percent (?data ! i) = Some m \<and> 45 \<le> m \<and> m \<le> 46)"
    if "i < 60" for i
    unfolding n[OF that] using r[of "3 * i"] r[of "3 * i + 1"] r[of "3 * i + 2"]
    by (simp add: t)
  have "last ?data = ?f 59" by (simp add: last_map)
  then have e: "timestamp (last ?data) = JStr (isoStr (now - 1000))" by simp
  from g l p e show ?thesis by blast
qed

lemma example_now_valid: "\<bar>1704103260000\<bar> + 60000 \<le> max_time"
  by (simp add: max_time_def)

theorem generateMockData_shape_witness:
  "\<exists>data. generateMockData 1704103260000 example_isoStr (\<lambda>k. 1 / 2) = Inr data \<and>
          length data = 60 \<and>
          timestamp (data ! 0) = JStr ''2024-01-01T10:00:00.000Z'' \<and>
          timestamp (data ! 1) = JStr ''2024-01-01T10:00:01.000Z'' \<and>
          60 \<le> cpu_user_percent (data ! 45) \<and> cpu_user_percent (data ! 45) \<le> 70 \<and>
          10 \<le> cpu_user_percent (data ! 50) \<and> cpu_user_percent (data ! 50) \<le> 20 \<and>
          timestamp (last data) = JStr ''2024-01-01T10:00:59.000Z''"
proof -
  have r: "\<forall>k. 0 \<le> (1 / 2 :: rat) \<and> (1 / 2 :: rat) \<le> 1" by simp
  from generateMockData_shape[OF example_now_valid r, of example_isoStr]
  obtain data where
    g: "generateMockData 1704103260000 example_isoStr (\<lambda>k. 1 / 2) = Inr data" and
    l: "length data = 60" and
    p: "\<And>i. i < 60 \<Longrightarrow>
          timestamp (data ! i) = JStr (example_isoStr (1704103260000 - 60000 + int i * 1000)) \<and>
          (40 < i \<and> i < 50 \<longrightarrow>
             60 \<le> cpu_user_percent (data ! i) \<and> cpu_user_percent (data ! i) \<le> 70) \<and>
          (\<not> (40 < i \<and> i < 50) \<longrightarrow>
             10 \<le> cpu_user_percent (data ! i) \<and> cpu_user_percent (data ! i) \<le> 20)" and
    e: "timestamp (last data) = JStr (example_isoStr (1704103260000 - 1000))"
    by blast
  have t0: "example_isoStr (1704103260000 - 60000 + int 0 * 1000) = ''2024-01-01T10:00:00.000Z''"
    by (simp add: example_date_simps)
  have t1: "example_isoStr (1704103260000 - 60000 + int 1 * 1000) = ''2024-01-01T10:00:01.000Z''"
    by (simp add: example_date_simps)
  have t59: "example_isoStr (1704103260000 - 1000) = ''2024-01-01T10:00:59.000Z''"
    by (simp add: example_date_simps)
  from p[of 0] t0 have a: "timestamp (data ! 0) = JStr ''2024-01-01T10:00:00.000Z''" by simp
  from p[of 1] t1 have b: "timestamp (data ! 1) = JStr ''2024-01-01T10:00:01.000Z''" by simp
  from p[of 45] have c: "60 \<le> cpu_user_percent (data ! 45) \<and> cpu_user_percent (data ! 45) \<le> 70"
    by simp
  from p[of 50] have d: "10 \<le> cpu_user_percent (data ! 50) \<and> cpu_user_percent (data ! 50) \<le> 20"
    by simp
  from e t59 have f: "timestamp (last data) = JStr ''2024-01-01T10:00:59.000Z''" by simp
  from g l a b c d f show ?thesis by blast
qed

text \<open>
  C9 as it is worded fails on the time of the last sample: generated at 10:01:00, the
  series ends at 10:00:59, one second before the current instant.
\<close>

theorem generateMockData_ends_before_now:
  "example_isoStr 1704103260000 = ''2024-01-01T10:01:00.000Z'' \<and>
   (\<exists>data. generateMockData 1704103260000 example_isoStr (\<lambda>k. 1 / 2) = Inr data \<and>
           timestamp (last data) = JStr ''2024-01-01T10:00:59.000Z'' \<and>
           timestamp (last data) \<noteq> JStr (example_isoStr 1704103260000))"
proof -
  have n: "example_isoStr 1704103260000 = ''2024-01-01T10:01:00.000Z''"
    by (simp add: example_date_simps)
  have t59: "example_isoStr (1704103260000 - (60 - int 59) * 1000) = ''2024-01-01T10:00:59.000Z''"
    by (simp add: example_date_simps)
  note g = generateMockData_map[OF example_now_valid, of example_isoStr "\<lambda>k. 1 / 2"]
  have "timestamp (last (map (\<lambda>i. \<lparr>timestamp = JStr (example_isoStr (1704103260000 - (60 - int i) * 1000)),
                pid = JNum 1234,
                cpu_user_percent =
                  min 100 ((if i > 40 \<and> i < 50 then 60 else 10) + (1 / 2) * 10),
                cpu_sys_percent =
                  min 100 ((if i > 40 \<and> i < 50 then 20 else 2) + (1 / 2) * 5),
                memory_percent = Some (45 + 1 / 2),
                command = Some (JStr ''python3 worker.py'')\<rparr>) [0..<60])) =
        JStr (example_isoStr (1704103260000 - (60 - int 59) * 1000))"
    by (simp add: last_map)
  then show ?thesis unfolding t59 using g n by auto
qed

subsection \<open>Maximal runs\<close>

lemma maximal_runs_over:
  "r \<in> set (maximal_runs P xs) \<Longrightarrow> r \<noteq> [] \<and> (\<forall>x \<in> set r. P x)"
proof (induction P xs rule: maximal_runs.induct)
  case (1 P)
  then show ?case by simp
next
  case (2 P x xs)
  show ?case
  proof (cases "P x")
    case True
    with "2.prems" have "r = x # takeWhile P xs \<or> r \<in> set (maximal_runs P (dropWhile P xs))"
      by simp
    then show ?thesis
    proof
      assume "r = x # takeWhile P xs"
      then show ?thesis using True by (auto dest: set_takeWhileD)
    next
      assume "r \<in> set (maximal_runs P (dropWhile P xs))"
      then show ?thesis using "2.IH"(1)[OF True] by blast
    qed
  next
    case False
    with "2.prems" "2.IH"(2) show ?thesis by simp
  qed
qed

lemma maximal_runs_concat: "concat (maximal_runs P xs) = filter P xs"
proof (induction P xs rule: maximal_runs.induct)
  case (1 P)
  then show ?case by simp
next
  case (2 P x xs)
  show ?case
  proof (cases "P x")
    case True
    have "filter P xs = filter P (takeWhile P xs @ dropWhile P xs)" by simp
    also have "\<dots> = filter P (takeWhile P xs) @ filter P (dropWhile P xs)" by (rule filter_append)
    also have "filter P (takeWhile P xs) = takeWhile P xs"
      by (intro filter_True ballI) (auto dest: set_takeWhileD)
    finally have "filter P xs = takeWhile P xs @ filter P (dropWhile P xs)" .
    with True "2.IH"(1) show ?thesis by simp
  next
    case False
    with "2.IH"(2) show ?thesis by simp
  qed
qed

lemma maximal_runs_maximal:
  "r \<in> set (maximal_runs P xs) \<Longrightarrow>
     \<exists>before after. xs = before @ r @ after \<and>
       (before = [] \<or> \<not> P (last before)) \<and> (after = [] \<or> \<not> P (hd after))"
proof (induction P xs rule: maximal_runs.induct)
  case (1 P)
  then show ?case by simp
next
  case (2 P x xs)
  show ?case
  proof (cases "P x")
    case True
    with "2.prems" have "r = x # takeWhile P xs \<or> r \<in> set (maximal_runs P (dropWhile P xs))"
      by simp
    then show ?thesis
    proof
      assume r: "r = x # takeWhile P xs"
      have "x # xs = [] @ r @ dropWhile P xs" unfolding r by simp
      moreover have "dropWhile P xs = [] \<or> \<not> P (hd (dropWhile P xs))"
        using hd_dropWhile[of P xs] by blast
      ultimately show ?thesis by blast
    next
      assume m: "r \<in> set (maximal_runs P (dropWhile P xs))"
      from "2.IH"(1)[OF True m] obtain before after where
        d: "dropWhile P xs = before @ r @ after" and
        b: "before = [] \<or> \<not> P (last before)" and
        a: "after = [] \<or> \<not> P (hd after)" by blast
      from maximal_runs_over[OF m] have rn: "r \<noteq> []" and rp: "P (hd r)" by auto
      have "before \<noteq> []"
      proof
        assume "before = []"
        with d rn have "dropWhile P xs \<noteq> []" "hd (dropWhile P xs) = hd r" by simp_all
        with hd_dropWhile[of P xs] rp show False by simp
      qed
      with b have nb: "\<not> P (last ((x # takeWhile P xs) @ before))" by simp
      have "x # xs = (x # takeWhile P xs) @ dropWhile P xs" by simp
      then have "x # xs = ((x # takeWhile P xs) @ before) @ r @ after" unfolding d by simp
      with nb a show ?thesis by blast
    qed
  next
    case False
    with "2.prems" have m: "r \<in> set (maximal_runs P xs)" by simp
    from "2.IH"(2)[OF False m] obtain before after where
      d: "xs = before @ r @ after" and
      b: "before = [] \<or> \<not> P (last before)" and
      a: "after = [] \<or> \<not> P (hd after)" by blast
    have "x # xs = (x # before) @ r @ after" unfolding d by simp
    moreover have "\<not> P (last (x # before))" using False b by auto
    ultimately show ?thesis using a by blast
  qed
qed

lemma maximal_runs_all:
  assumes "\<forall>d \<in> set cur. P d"
  shows "maximal_runs P cur = (if cur = [] then [] else [cur])"
proof (cases cur)
  case Nil
  then show ?thesis by simp
next
  case (Cons c cs)
  with assms have c: "P c" and t: "takeWhile P cs = cs" and d: "dropWhile P cs = []"
    by simp_all
  from c have "maximal_runs P (c # cs) =
      (c # takeWhile P cs) # maximal_runs P (dropWhile P cs)" by simp
  then have "maximal_runs P (c # cs) = [c # cs]" unfolding t d by simp
  then show ?thesis unfolding Cons by simp
qed

lemma maximal_runs_split:
  assumes "\<forall>d \<in> set cur. P d" and "\<not> P x"
  shows "maximal_runs P (cur @ x # rest) = (if cur = [] then [] else [cur]) @ maximal_runs P rest"
proof (cases cur)
  case Nil
  with assms(2) show ?thesis by simp
next
  case (Cons c cs)
  with assms have c: "P c" and cs: "\<forall>d \<in> set cs. P d" by simp_all
  from cs assms(2) have t: "takeWhile P (cs @ x # rest) = cs"
    and d: "dropWhile P (cs @ x # rest) = x # rest"
    by (simp_all add: takeWhile_append2 dropWhile_append2)
  from c have "maximal_runs P (c # cs @ x # rest) =
      (c # takeWhile P (cs @ x # rest)) # maximal_runs P (dropWhile P (cs @ x # rest))"
    by simp
  then have "maximal_runs P (c # cs @ x # rest) = (c # cs) # maximal_runs P (x # rest)"
    unfolding t d .
  then show ?thesis unfolding Cons using assms(2) by simp
qed

subsection \<open>The sweep\<close>

lemma Max_totals_snoc:
  assumes "cur \<noteq> []"
  shows "Max (set (map f (cur @ [x]))) = max (Max (set (map f cur))) (f x :: rat)"
proof -
  have "set (map f (cur @ [x])) = insert (f x) (set (map f cur))" by simp
  moreover have "finite (set (map f cur))" "set (map f cur) \<noteq> {}" using assms by simp_all
  ultimately show ?thesis
    using Max_insert[of "set (map f cur)" "f x"] by (simp add: max.commute)
qed

lemma sweep_forEach_runs:
  assumes "fd = before @ cur @ rest"
    and "\<forall>d \<in> set cur. over T d"
    and "\<forall>d \<in> set fd. truthy (timestamp d)"
    and "consecutiveCount s = length cur"
    and "currentStart s = (if cur = [] then None else Some (timestamp (hd cur)))"
    and "currentMax s =
           (if cur = [] then 0
            else Max (set (map (\<lambda>d. cpu_user_percent d + cpu_sys_percent d) cur)))"
  shows "\<exists>s'. sweep_forEach T fd (enumerate (length before + length cur) rest) s = Inr s' \<and>
              sweep_flush fd s' = Inr (incidents s @ sustained_runs T (cur @ rest))"
  using assms
proof (induction rest arbitrary: s cur before)
  case Nil
  show ?case
  proof (cases "3 \<le> length cur")
    case True
    then have ne: "cur \<noteq> []" by auto
    then have "hd cur \<in> set fd" using Nil.prems(1) by simp
    then have tr: "truthy (timestamp (hd cur))" using Nil.prems(3) by blast
    have lf: "last fd = last cur" "fd \<noteq> []" using ne Nil.prems(1) by simp_all
    have "sustained_runs T cur = [run_incident cur]"
      using True ne maximal_runs_all[OF Nil.prems(2)] by (simp add: sustained_runs_def)
    then show ?thesis
      using True ne tr lf Nil.prems(4,5,6)
      by (simp add: sweep_flush_def start_truthy_def run_incident_def)
  next
    case False
    then have "sustained_runs T cur = []"
      using maximal_runs_all[OF Nil.prems(2)] by (simp add: sustained_runs_def)
    then show ?thesis using False Nil.prems(4) by (simp add: sweep_flush_def)
  qed
next
  case (Cons x rest)
  let ?k = "length before + length cur"
  let ?tot = "\<lambda>d. cpu_user_percent d + cpu_sys_percent d"
  have en: "enumerate ?k (x # rest) = (?k, x) # enumerate (Suc ?k) rest" by simp
  show ?case
  proof (cases "over T x")
    case True
    define s1 where "s1 = (if consecutiveCount s = 0
              then s\<lparr>currentStart := Some (timestamp x), currentMax := ?tot x\<rparr>
              else s\<lparr>currentMax := max (currentMax s) (?tot x)\<rparr>)
             \<lparr>consecutiveCount := consecutiveCount s + 1\<rparr>"
    have step: "sweep_each T fd ?k x s = Inr s1"
      using True by (simp add: sweep_each_def over_def s1_def Let_def)
    have a1: "fd = before @ (cur @ [x]) @ rest" using Cons.prems(1) by simp
    have a2: "\<forall>d \<in> set (cur @ [x]). over T d" using Cons.prems(2) True by simp
    have a4: "consecutiveCount s1 = length (cur @ [x])"
      using Cons.prems(4) by (simp add: s1_def)
    have a5: "currentStart s1 =
        (if cur @ [x] = [] then None else Some (timestamp (hd (cur @ [x]))))"
      using Cons.prems(4,5) by (cases cur) (simp_all add: s1_def)
    have a6: "currentMax s1 =
        (if cur @ [x] = [] then 0 else Max (set (map ?tot (cur @ [x]))))"
    proof (cases "cur = []")
      case True
      then show ?thesis using Cons.prems(4) by (simp add: s1_def)
    next
      case False
      then show ?thesis
        using Cons.prems(4,6) Max_totals_snoc[OF False, of ?tot x] by (simp add: s1_def)
    qed
    have i1: "incidents s1 = incidents s" by (simp add: s1_def)
    from Cons.IH[OF a1 a2 Cons.prems(3) a4 a5 a6]
    obtain s' where
      "sweep_forEach T fd (enumerate (length before + length (cur @ [x])) rest) s1 = Inr s'"
      "sweep_flush fd s' = Inr (incidents s1 @ sustained_runs T ((cur @ [x]) @ rest))"
      by blast
    then show ?thesis using step i1 by (simp add: en)
  next
    case False
    define emitted where "emitted = (if 3 \<le> length cur then [run_incident cur] else [])"
    define s1 where "s1 = s\<lparr>incidents := incidents s @ emitted,
        consecutiveCount := 0, currentStart := None, currentMax := 0\<rparr>"
    have step: "sweep_each T fd ?k x s = Inr s1"
    proof (cases "3 \<le> length cur")
      case True
      then have ne: "cur \<noteq> []" by auto
      then have "hd cur \<in> set fd" using Cons.prems(1) by simp
      then have tr: "truthy (timestamp (hd cur))" using Cons.prems(3) by blast
      have ix: "1 \<le> ?k" "?k - 1 < length fd" using ne Cons.prems(1) by (simp_all add: Suc_le_eq)
      have "fd ! (?k - 1) = (before @ cur) ! (length (before @ cur) - 1)"
        using ne Cons.prems(1) by (simp add: nth_append)
      also have "\<dots> = last (before @ cur)" using ne by (simp add: last_conv_nth)
      finally have pv: "fd ! (?k - 1) = last cur" using ne by simp
      show ?thesis
        using False True ne tr ix pv Cons.prems(4,5,6)
        by (simp add: sweep_each_def over_def Let_def start_truthy_def s1_def emitted_def
            run_incident_def)
    next
      case F: False
      then show ?thesis
        using False Cons.prems(4)
        by (simp add: sweep_each_def over_def Let_def s1_def emitted_def)
    qed
    have a1: "fd = (before @ cur @ [x]) @ [] @ rest" using Cons.prems(1) by simp
    have a4: "consecutiveCount s1 = length ([] :: cpu_log_entry list)" by (simp add: s1_def)
    have a5: "currentStart s1 =
        (if ([] :: cpu_log_entry list) = [] then None else Some (timestamp (hd [])))"
      by (simp add: s1_def)
    have a6: "currentMax s1 =
        (if ([] :: cpu_log_entry list) = [] then 0 else Max (set (map ?tot [])))"
      by (simp add: s1_def)
    from Cons.IH[OF a1 _ Cons.prems(3) a4 a5 a6]
    obtain s' where
      f: "sweep_forEach T fd (enumerate (length (before @ cur @ [x]) + length ([] :: cpu_log_entry list)) rest) s1 = Inr s'" and
      g: "sweep_flush fd s' = Inr (incidents s1 @ sustained_runs T ([] @ rest))"
      by auto
    have "sustained_runs T (cur @ x # rest) = emitted @ sustained_runs T rest"
      using maximal_runs_split[OF Cons.prems(2) False, of rest]
      by (simp add: sustained_runs_def emitted_def)
    then have "incidents s1 @ sustained_runs T ([] @ rest) =
        incidents s @ sustained_runs T (cur @ x # rest)"
      by (simp add: s1_def)
    with f g step show ?thesis by (simp add: en)
  qed
qed

lemma alertIncidents_runs:
  assumes "\<forall>d \<in> set fd. truthy (timestamp d)"
  shows "alertIncidents T fd = Inr (sustained_runs T fd)"
proof -
  let ?s0 = "\<lparr>incidents = [], consecutiveCount = 0, currentStart = None, currentMax = 0\<rparr>"
  have "\<exists>s'. sweep_forEach T fd (enumerate (length ([] :: cpu_log_entry list) +
                 length ([] :: cpu_log_entry list)) fd) ?s0 = Inr s' \<and>
              sweep_flush fd s' = Inr (incidents ?s0 @ sustained_runs T ([] @ fd))"
    by (rule sweep_forEach_runs) (use assms in simp_all)
  then show ?thesis by (auto simp: alertIncidents_def)
qed

text \<open>Every sample the parser returns has a truthy timestamp.\<close>

lemma or_default_truthy: "truthy d \<Longrightarrow> truthy (or_default v d)"
  by (simp add: or_default_def split: option.splits)

lemma parse_line_truthy:
  assumes "parse_line JSON_parse now line = Pushed e" and "now \<noteq> []"
  shows "truthy (timestamp e)"
  using assms
  by (auto simp: parse_line_def Let_def or_default_truthy
      split: if_splits option.splits json.splits sum.splits)

text \<open>
  C1. On a sequence of samples with truthy timestamps (which is what the parser, the
  generator and the stream produce) the detector returns, in input order, one incident
  for each maximal contiguous run of samples with user+sys above the threshold that has
  three or more samples: the timestamp of the first sample of the run, the timestamp of
  its last sample, and the largest user+sys in it. The runs partition the samples
  above the threshold, each is delimited by the ends of the sequence or by samples
  that are not above the threshold, and shorter runs give no incident.
\<close>

theorem alertIncidents_sustained_runs:
  assumes "\<forall>d \<in> set fd. truthy (timestamp d)"
  shows "alertIncidents T fd =
           Inr (map run_incident
                  (filter (\<lambda>r. 3 \<le> length r) (maximal_runs (over T) fd))) \<and>
         concat (maximal_runs (over T) fd) =
           filter (\<lambda>d. cpu_user_percent d + cpu_sys_percent d > T) fd \<and>
         (\<forall>r \<in> set (maximal_runs (over T) fd).
            r \<noteq> [] \<and>
            (\<forall>d \<in> set r. cpu_user_percent d + cpu_sys_percent d > T) \<and>
            (\<exists>before after.
               fd = before @ r @ after \<and>
               (before = [] \<or>
                \<not> cpu_user_percent (last before) + cpu_sys_percent (last before) > T) \<and>
               (after = [] \<or>
                \<not> cpu_user_percent (hd after) + cpu_sys_percent (hd after) > T)) \<and>
            run_incident r =
              \<lparr>start = timestamp (hd r), end_ts = timestamp (last r),
               maxVal = Max (set (map (\<lambda>d. cpu_user_percent d + cpu_sys_percent d) r))\<rparr>)"
proof -
  have o: "over T = (\<lambda>d. cpu_user_percent d + cpu_sys_percent d > T)"
    by (rule ext) (simp add: over_def)
  have a: "alertIncidents T fd =
      Inr (map run_incident (filter (\<lambda>r. 3 \<le> length r) (maximal_runs (over T) fd)))"
    using alertIncidents_runs[OF assms] by (simp add: sustained_runs_def)
  have b: "concat (maximal_runs (over T) fd) =
      filter (\<lambda>d. cpu_user_percent d + cpu_sys_percent d > T) fd"
    using maximal_runs_concat[of "over T" fd] by (simp only: o)
  have c: "r \<noteq> [] \<and>
            (\<forall>d \<in> set r. cpu_user_percent d + cpu_sys_percent d > T) \<and>
            (\<exists>before after.
               fd = before @ r @ after \<and>
               (before = [] \<or>
                \<not> cpu_user_percent (last before) + cpu_sys_percent (last before) > T) \<and>
               (after = [] \<or>
                \<not> cpu_user_percent (hd after) + cpu_sys_percent (hd after) > T)) \<and>
            run_incident r =
              \<lparr>start = timestamp (hd r), end_ts = timestamp (last r),
               maxVal = Max (set (map (\<lambda>d. cpu_user_percent d + cpu_sys_percent d) r))\<rparr>"
    if "r \<in> set (maximal_runs (over T) fd)" for r
    using maximal_runs_over[OF that] maximal_runs_maximal[OF that]
    by (simp add: over_def run_incident_def)
  from a b c show ?thesis by blast
qed

lemma example_series_truthy: "\<forall>d \<in> set example_series. truthy (timestamp d)"
  by (simp add: example_series_def example_sample_def)

lemma example_series_runs_80:
  "maximal_runs (over 80) example_series =
     [[example_sample ''2024-01-01T10:00:00'' 70 20,
       example_sample ''2024-01-01T10:00:01'' 80 10,
       example_sample ''2024-01-01T10:00:02'' 60 30],
      [example_sample ''2024-01-01T10:00:04'' 75 20,
       example_sample ''2024-01-01T10:00:05'' 90 5,
       example_sample ''2024-01-01T10:00:06'' 70 25,
       example_sample ''2024-01-01T10:00:07'' 85 10]]"
  by (simp add: example_series_def example_sample_def over_def)

lemma example_series_runs_96: "maximal_runs (over 96) example_series = []"
  by (simp add: example_series_def example_sample_def over_def)

theorem alertIncidents_sustained_runs_witness:
  "alertIncidents 80 example_series =
     Inr [\<lparr>start = JStr ''2024-01-01T10:00:00'', end_ts = JStr ''2024-01-01T10:00:02'',
           maxVal = 90\<rparr>,
          \<lparr>start = JStr ''2024-01-01T10:00:04'', end_ts = JStr ''2024-01-01T10:00:07'',
           maxVal = 95\<rparr>] \<and>
   alertIncidents 96 example_series = Inr [] \<and>
   map (\<lambda>d. cpu_user_percent d + cpu_sys_percent d) example_series =
     [90, 90, 90, 10, 95, 95, 95, 95, 10]"
proof -
  from alertIncidents_sustained_runs[OF example_series_truthy, of 80]
  have "alertIncidents 80 example_series =
      Inr (map run_incident
             (filter (\<lambda>r. 3 \<le> length r) (maximal_runs (over 80) example_series)))"
    by blast
  then have a: "alertIncidents 80 example_series =
     Inr [\<lparr>start = JStr ''2024-01-01T10:00:00'', end_ts = JStr ''2024-01-01T10:00:02'',
           maxVal = 90\<rparr>,
          \<lparr>start = JStr ''2024-01-01T10:00:04'', end_ts = JStr ''2024-01-01T10:00:07'',
           maxVal = 95\<rparr>]"
    unfolding example_series_runs_80 by (simp add: run_incident_def example_sample_def)
  from alertIncidents_sustained_runs[OF example_series_truthy, of 96]
  have "alertIncidents 96 example_series =
      Inr (map run_incident
             (filter (\<lambda>r. 3 \<le> length r) (maximal_runs (over 96) example_series)))"
    by blast
  then have b: "alertIncidents 96 example_series = Inr []"
    unfolding example_series_runs_96 by simp
  have c: "map (\<lambda>d. cpu_user_percent d + cpu_sys_percent d) example_series =
     [90, 90, 90, 10, 95, 95, 95, 95, 10]"
    by (simp add: example_series_def example_sample_def)
  from a b c show ?thesis by blast
qed

end
